theory Spec2Isabelle
  imports Complex_Main "HOL-Library.Log_Nat"
begin

section \<open>Canteen ordering system: the order and cart domain model of \<open>index.js\<close>\<close>

text \<open>
  The development embeds the domain classes of \<open>src/index.js\<close>: \<open>MenuItem\<close>, \<open>CartItem\<close>,
  \<open>Cart\<close>, \<open>Order\<close>, the pricing strategies, the observer mechanism and the in-memory menu
  repository. Identifiers (\<open>id\<close>, \<open>menuItemId\<close>, \<open>status\<close>) are JavaScript strings and are
  compared with \<open>===\<close>, which on strings is equality of the character sequences.

  Names are the source's. A field whose name several classes share, or whose name is a
  constant of the logic, carries the class in its name: \<open>MenuItem.id\<close> is \<open>mi_id\<close>,
  \<open>Cart.items\<close> is \<open>cart_items\<close>, \<open>Order.id\<close>, \<open>Order.items\<close> and \<open>Order.total\<close> are
  \<open>order_id\<close>, \<open>order_items\<close> and \<open>total'\<close>, and the repository's \<open>_items\<close> is
  \<open>menu_items\<close>. A method is named \<open>Class_method\<close>; it takes the object as an argument and
  returns the object it has changed.

  Numbers. A JavaScript number is an IEEE 754 binary64 value, and every arithmetic operator
  rounds its exact result to the nearest representable value. Quantities are integers
  (\<open>CartItem.quantity\<close> counts portions) and are modelled as \<open>int\<close>; sums of integers are
  exact in binary64 up to \<open>2^53\<close>, and the cart's \<open>quantity += qty\<close> rounds beyond that.
  Prices and totals are modelled as rationals. The pricing functions and \<open>Cart.addItem\<close>
  take the rounding \<open>rnd\<close> applied after each operation as a parameter: \<open>rnd = id\<close> is
  exact arithmetic, \<open>rnd = binary64\<close> (below) is the rounding of the JavaScript engine on
  finite values in the normal range.
\<close>

subsection \<open>Domain classes\<close>

record MenuItem =
  mi_id :: string
  name :: string
  price :: rat
  category :: string
  tags :: "string list"
  available :: bool

record CartItem =
  menuItemId :: string
  quantity :: int

subsection \<open>Rounding of JavaScript numbers\<close>

text \<open>
  Round-to-nearest, ties-to-even, to a 53-bit significand: \<open>binade x\<close> is the exponent
  \<open>e\<close> with \<open>2^e \<le> x < 2^(e+1)\<close> for a positive \<open>x\<close>, the unit in the last place of that
  binade is \<open>2^(e - 52)\<close>, and \<open>binary64 x\<close> is the multiple of the unit nearest to \<open>x\<close>.
  Subnormal numbers, overflow to \<open>Infinity\<close> and \<open>NaN\<close> are outside this model; the prices
  and totals of a canteen menu are far from those ranges.
\<close>

definition round_half_even :: "rat \<Rightarrow> int" where
  "round_half_even x =
     (let f = \<lfloor>x\<rfloor>; d = x - of_int f
      in if d < 1 / 2 then f else if 1 / 2 < d then f + 1 else if even f then f else f + 1)"

definition binade :: "rat \<Rightarrow> int" where
  "binade x = (if 1 \<le> x then bitlen \<lfloor>x\<rfloor> - 1 else - bitlen (\<lceil>1 / x\<rceil> - 1))"

definition binary64 :: "rat \<Rightarrow> rat" where
  "binary64 x =
     (if x = 0 then 0
      else let ulp = 2 powi (binade \<bar>x\<bar> - 52)
           in sgn x * of_int (round_half_even (\<bar>x\<bar> / ulp)) * ulp)"

subsection \<open>Strategy pattern\<close>

text \<open>
  \<open>SimplePricingStrategy.computeTotal\<close>: the \<open>for (const ci of items)\<close> loop with its
  accumulator \<open>total\<close>. \<open>menu.find\<close> returns the first menu item with the id, or
  \<open>undefined\<close> (\<open>None\<close>), and \<open>mi && mi.available\<close> guards the addition.
\<close>

fun Simple_loop :: "(rat \<Rightarrow> rat) \<Rightarrow> MenuItem list \<Rightarrow> CartItem list \<Rightarrow> rat \<Rightarrow> rat" where
  "Simple_loop rnd menu [] tot = tot"
| "Simple_loop rnd menu (ci # rest) tot =
     (case find (\<lambda>m. mi_id m = menuItemId ci) menu of
        None \<Rightarrow> Simple_loop rnd menu rest tot
      | Some mi \<Rightarrow>
          if available mi
          then Simple_loop rnd menu rest (rnd (tot + rnd (price mi * of_int (quantity ci))))
          else Simple_loop rnd menu rest tot)"

definition SimplePricingStrategy_computeTotal ::
  "(rat \<Rightarrow> rat) \<Rightarrow> CartItem list \<Rightarrow> MenuItem list \<Rightarrow> rat" where
  "SimplePricingStrategy_computeTotal rnd items menu = Simple_loop rnd menu items 0"

text \<open>
  \<open>ComboPricingStrategy.computeTotal\<close>: the same loop with the second accumulator
  \<open>qtySum\<close>, then \<open>if (qtySum >= 3) total *= 0.9\<close>. The literal \<open>0.9\<close> is itself a rounded
  value.
\<close>

fun Combo_loop ::
  "(rat \<Rightarrow> rat) \<Rightarrow> MenuItem list \<Rightarrow> CartItem list \<Rightarrow> rat \<Rightarrow> int \<Rightarrow> rat \<times> int" where
  "Combo_loop rnd menu [] tot qtySum = (tot, qtySum)"
| "Combo_loop rnd menu (ci # rest) tot qtySum =
     (case find (\<lambda>m. mi_id m = menuItemId ci) menu of
        None \<Rightarrow> Combo_loop rnd menu rest tot qtySum
      | Some mi \<Rightarrow>
          if available mi
          then Combo_loop rnd menu rest
                 (rnd (tot + rnd (price mi * of_int (quantity ci)))) (qtySum + quantity ci)
          else Combo_loop rnd menu rest tot qtySum)"

definition ComboPricingStrategy_computeTotal ::
  "(rat \<Rightarrow> rat) \<Rightarrow> CartItem list \<Rightarrow> MenuItem list \<Rightarrow> rat" where
  "ComboPricingStrategy_computeTotal rnd items menu =
     (case Combo_loop rnd menu items 0 0 of
        (tot, qtySum) \<Rightarrow> if 3 \<le> qtySum then rnd (tot * rnd (9 / 10)) else tot)"

subsection \<open>Reference notions for the pricing claims\<close>

text \<open>
  A cart item is \<^emph>\<open>priced\<close> by a menu when the first menu item carrying its id exists and
  is available; its unit price is the price of that menu item. \<open>line_total\<close> is the amount
  the item contributes in exact arithmetic: \<open>price * quantity\<close> when priced, zero otherwise.
\<close>

definition priced :: "MenuItem list \<Rightarrow> CartItem \<Rightarrow> bool" where
  "priced menu ci =
     (case find (\<lambda>m. mi_id m = menuItemId ci) menu of
        None \<Rightarrow> False
      | Some mi \<Rightarrow> available mi)"

definition unit_price :: "MenuItem list \<Rightarrow> CartItem \<Rightarrow> rat" where
  "unit_price menu ci =
     (case find (\<lambda>m. mi_id m = menuItemId ci) menu of
        None \<Rightarrow> 0
      | Some mi \<Rightarrow> price mi)"

definition line_total :: "MenuItem list \<Rightarrow> CartItem \<Rightarrow> rat" where
  "line_total menu ci = (if priced menu ci then unit_price menu ci * of_int (quantity ci) else 0)"


subsection \<open>The example scenario of the specification\<close>

definition scenario_menu :: "MenuItem list" where
  "scenario_menu =
     [\<lparr>mi_id = ''m1'', name = ''Burger'', price = 7 / 2, category = ''MAIN'',
        tags = [''HALAL''], available = True\<rparr>,
      \<lparr>mi_id = ''m2'', name = ''Pizza Slice'', price = 2, category = ''MAIN'',
        tags = [], available = False\<rparr>]"

definition scenario_cart_mixed :: "CartItem list" where
  "scenario_cart_mixed =
     [\<lparr>menuItemId = ''m1'', quantity = 2\<rparr>, \<lparr>menuItemId = ''m2'', quantity = 1\<rparr>]"

definition scenario_cart_four :: "CartItem list" where
  "scenario_cart_four = [\<lparr>menuItemId = ''m1'', quantity = 4\<rparr>]"

text \<open>
  A menu in which the id \<open>m1\<close> occurs twice, after an unavailable \<open>m2\<close>: the first \<open>m1\<close>
  costs 3.50, the second 9.00.
\<close>

definition repeated_id_menu :: "MenuItem list" where
  "repeated_id_menu =
     [\<lparr>mi_id = ''m2'', name = ''Pizza Slice'', price = 2, category = ''MAIN'',
        tags = [], available = False\<rparr>,
      \<lparr>mi_id = ''m1'', name = ''Burger'', price = 7 / 2, category = ''MAIN'',
        tags = [''HALAL''], available = True\<rparr>,
      \<lparr>mi_id = ''m1'', name = ''Double Burger'', price = 9, category = ''MAIN'',
        tags = [''HALAL''], available = True\<rparr>]"

subsection \<open>Array helpers\<close>

text \<open>
  \<open>Array.prototype.findIndex\<close> and \<open>indexOf\<close> return the first index whose element
  satisfies the test, or \<open>-1\<close>. \<open>find\<close> returns a reference to the first such element,
  so an assignment to a field of the result changes that element of the array in place:
  \<open>mutate_first\<close> is the array after such an assignment.
\<close>

fun findIndex_from :: "('a \<Rightarrow> bool) \<Rightarrow> 'a list \<Rightarrow> int \<Rightarrow> int" where
  "findIndex_from P [] i = - 1"
| "findIndex_from P (x # xs) i = (if P x then i else findIndex_from P xs (i + 1))"

definition findIndex :: "('a \<Rightarrow> bool) \<Rightarrow> 'a list \<Rightarrow> int" where
  "findIndex P xs = findIndex_from P xs 0"

definition indexOf :: "'a list \<Rightarrow> 'a \<Rightarrow> int" where
  "indexOf xs v = findIndex (\<lambda>x. x = v) xs"

fun mutate_first :: "('a \<Rightarrow> bool) \<Rightarrow> ('a \<Rightarrow> 'a) \<Rightarrow> 'a list \<Rightarrow> 'a list" where
  "mutate_first P f [] = []"
| "mutate_first P f (x # xs) = (if P x then f x # xs else x # mutate_first P f xs)"

subsection \<open>Cart\<close>

record Cart =
  cart_items :: "CartItem list"

definition Cart_new :: Cart where
  "Cart_new = \<lparr>cart_items = []\<rparr>"

text \<open>
  \<open>addItem(menuItemId, qty = 1)\<close>; a call that leaves the quantity out is the call with
  \<open>qty = 1\<close>. The assignment \<open>existing.quantity += qty\<close> is an addition of two numbers,
  so its exact sum is rounded by \<open>rnd\<close>, as in the pricing functions. The rounded value
  of an integer is again an integer (\<open>binary64_of_int_integral\<close> below), which the floor
  reads back into the quantity.
\<close>

definition Cart_addItem :: "(rat \<Rightarrow> rat) \<Rightarrow> Cart \<Rightarrow> string \<Rightarrow> int \<Rightarrow> Cart" where
  "Cart_addItem rnd cart mid qty =
     (if qty \<le> 0 then cart
      else case find (\<lambda>ci. menuItemId ci = mid) (cart_items cart) of
             Some existing \<Rightarrow>
               cart\<lparr>cart_items := mutate_first (\<lambda>ci. menuItemId ci = mid)
                  (\<lambda>ci. ci\<lparr>quantity := \<lfloor>rnd (of_int (quantity ci) + of_int qty)\<rfloor>\<rparr>)
                  (cart_items cart)\<rparr>
           | None \<Rightarrow> cart\<lparr>cart_items := cart_items cart @ [\<lparr>menuItemId = mid, quantity = qty\<rparr>]\<rparr>)"

definition Cart_removeItem :: "Cart \<Rightarrow> string \<Rightarrow> Cart" where
  "Cart_removeItem cart mid = cart\<lparr>cart_items := filter (\<lambda>ci. menuItemId ci \<noteq> mid) (cart_items cart)\<rparr>"

definition Cart_getItems :: "Cart \<Rightarrow> CartItem list" where
  "Cart_getItems cart = cart_items cart"

definition Cart_clear :: "Cart \<Rightarrow> Cart" where
  "Cart_clear cart = cart\<lparr>cart_items := []\<rparr>"

text \<open>A sequence of \<open>addItem\<close> calls, each given as its pair of arguments, on a new cart.\<close>

definition addItem_calls :: "(rat \<Rightarrow> rat) \<Rightarrow> (string \<times> int) list \<Rightarrow> Cart" where
  "addItem_calls rnd calls =
     foldl (\<lambda>cart (mid, qty). Cart_addItem rnd cart mid qty) Cart_new calls"

text \<open>
  Reference notions for the cart claim: the quantity the cart holds for an id (zero when
  it has no line for the id), and the sum of the positive quantities a sequence of calls
  supplied for an id.
\<close>

definition cart_quantity :: "Cart \<Rightarrow> string \<Rightarrow> int" where
  "cart_quantity cart mid =
     (case find (\<lambda>ci. menuItemId ci = mid) (cart_items cart) of
        None \<Rightarrow> 0
      | Some ci \<Rightarrow> quantity ci)"

definition supplied :: "(string \<times> int) list \<Rightarrow> string \<Rightarrow> int" where
  "supplied calls mid = (\<Sum>(m, q)\<leftarrow>calls. if m = mid \<and> 0 < q then q else 0)"

subsection \<open>Order and its status\<close>

text \<open>
  \<open>OrderStatus\<close> is a frozen object of four strings, and \<open>Order.status\<close> holds a string;
  \<open>pickupTime\<close> is a \<open>Date\<close>, kept as its time value in milliseconds.
\<close>

definition RECEIVED :: string where "RECEIVED = ''RECEIVED''"
definition PREPARING :: string where "PREPARING = ''PREPARING''"
definition READY :: string where "READY = ''READY''"
definition PICKED_UP :: string where "PICKED_UP = ''PICKED_UP''"

record Order =
  order_id :: string
  userId :: string
  order_items :: "CartItem list"
  status :: string
  pickupTime :: int
  total' :: rat

definition Order_advanceStatus :: "Order \<Rightarrow> Order" where
  "Order_advanceStatus order =
     (let flow = [RECEIVED, PREPARING, READY, PICKED_UP];
          idx = indexOf flow (status order)
      in if 0 \<le> idx \<and> idx < int (length flow) - 1
         then order\<lparr>status := flow ! nat (idx + 1)\<rparr>
         else order)"

definition example_order :: Order where
  "example_order =
     \<lparr>order_id = ''o1'', userId = ''u1'',
      order_items = [\<lparr>menuItemId = ''m1'', quantity = 2\<rparr>],
      status = RECEIVED, pickupTime = 0, total' = 7\<rparr>"

subsection \<open>Errors\<close>

text \<open>A thrown \<open>new Error(message)\<close>; a call that may throw returns \<open>error + 'a\<close>.\<close>

datatype error = Error string

subsection \<open>Abstract base classes\<close>

text \<open>
  The base classes \<open>PricingStrategy\<close>, \<open>OrderObserver\<close>, \<open>MenuRepository\<close> and
  \<open>OrderRepository\<close>: the body of each method, whatever its arguments. The body of
  \<open>OrderObserver.onStatusChanged\<close> is the comment \<open>// abstract\<close> alone, so the call
  returns.
\<close>

definition PricingStrategy_computeTotal :: "CartItem list \<Rightarrow> MenuItem list \<Rightarrow> error + rat" where
  "PricingStrategy_computeTotal items menu = Inl (Error ''computeTotal must be implemented'')"

definition OrderObserver_onStatusChanged :: "string \<Rightarrow> string \<Rightarrow> error + unit" where
  "OrderObserver_onStatusChanged orderId st = Inr ()"

definition MenuRepository_findAll :: "error + MenuItem list" where
  "MenuRepository_findAll = Inl (Error ''Not implemented'')"

definition MenuRepository_findById :: "string \<Rightarrow> error + MenuItem option" where
  "MenuRepository_findById i = Inl (Error ''Not implemented'')"

definition MenuRepository_save :: "MenuItem \<Rightarrow> error + unit" where
  "MenuRepository_save item = Inl (Error ''Not implemented'')"

definition MenuRepository_toggleAvailability :: "string \<Rightarrow> bool \<Rightarrow> error + unit" where
  "MenuRepository_toggleAvailability i avail = Inl (Error ''Not implemented'')"

definition OrderRepository_save :: "Order \<Rightarrow> error + unit" where
  "OrderRepository_save order = Inl (Error ''Not implemented'')"

definition OrderRepository_findById :: "string \<Rightarrow> error + Order option" where
  "OrderRepository_findById i = Inl (Error ''Not implemented'')"

definition OrderRepository_findByStatus :: "string \<Rightarrow> error + Order list" where
  "OrderRepository_findByStatus st = Inl (Error ''Not implemented'')"

definition OrderRepository_updateStatus :: "string \<Rightarrow> string \<Rightarrow> error + unit" where
  "OrderRepository_updateStatus i st = Inl (Error ''Not implemented'')"

subsection \<open>Observer pattern\<close>

text \<open>
  An observer is an object; \<open>includes\<close> and \<open>!==\<close> compare object references, so the
  subject's array holds references (natural numbers). What the observers do is given by
  \<open>h\<close>: \<open>h ob orderId st\<close> is how the call \<open>ob.onStatusChanged(orderId, st)\<close> ends,
  \<open>Inr ()\<close> when it returns and \<open>Inl e\<close> when it throws \<open>e\<close>. The effect of \<open>notify\<close> that
  the claims speak of is the sequence of calls it makes, kept as a log of
  \<open>(observer, orderId, status)\<close> triples. The \<open>for ... of\<close> loop has no \<open>try\<close>: an
  exception thrown by a call leaves the loop and \<open>notify\<close>. The observers are taken not to
  attach observers to the subject that is notifying them.
\<close>

record OrderSubject =
  observers :: "nat list"

definition OrderSubject_new :: OrderSubject where
  "OrderSubject_new = \<lparr>observers = []\<rparr>"

definition OrderSubject_attach :: "OrderSubject \<Rightarrow> nat \<Rightarrow> OrderSubject" where
  "OrderSubject_attach subject observer =
     (if observer \<notin> set (observers subject)
      then subject\<lparr>observers := observers subject @ [observer]\<rparr>
      else subject)"

definition OrderSubject_detach :: "OrderSubject \<Rightarrow> nat \<Rightarrow> OrderSubject" where
  "OrderSubject_detach subject observer =
     subject\<lparr>observers := filter (\<lambda>ob. ob \<noteq> observer) (observers subject)\<rparr>"

fun notify_loop ::
  "(nat \<Rightarrow> string \<Rightarrow> string \<Rightarrow> error + unit) \<Rightarrow> nat list \<Rightarrow> string \<Rightarrow> string \<Rightarrow>
     (nat \<times> string \<times> string) list \<Rightarrow> (error + unit) \<times> (nat \<times> string \<times> string) list" where
  "notify_loop h [] orderId st calls = (Inr (), calls)"
| "notify_loop h (ob # rest) orderId st calls =
     (case h ob orderId st of
        Inl e \<Rightarrow> (Inl e, calls @ [(ob, orderId, st)])
      | Inr u \<Rightarrow> notify_loop h rest orderId st (calls @ [(ob, orderId, st)]))"

definition OrderSubject_notify ::
  "(nat \<Rightarrow> string \<Rightarrow> string \<Rightarrow> error + unit) \<Rightarrow> OrderSubject \<Rightarrow> string \<Rightarrow> string \<Rightarrow>
     (error + unit) \<times> (nat \<times> string \<times> string) list" where
  "OrderSubject_notify h subject orderId st = notify_loop h (observers subject) orderId st []"

text \<open>
  Reference notions for the observer claims: the observers a notification reaches (those
  before the first one that throws, and that one), and an example behaviour in which
  observer 1 throws and every other observer returns.
\<close>

definition reached :: "(nat \<Rightarrow> string \<Rightarrow> string \<Rightarrow> error + unit) \<Rightarrow> string \<Rightarrow> string \<Rightarrow> nat list \<Rightarrow> nat list" where
  "reached h orderId st obs =
     takeWhile (\<lambda>ob. \<not> isl (h ob orderId st)) obs @
     take 1 (dropWhile (\<lambda>ob. \<not> isl (h ob orderId st)) obs)"

definition first_throws :: "nat \<Rightarrow> string \<Rightarrow> string \<Rightarrow> error + unit" where
  "first_throws ob orderId st = (if ob = 1 then Inl (Error ''observer failed'') else Inr ())"

definition all_return :: "nat \<Rightarrow> string \<Rightarrow> string \<Rightarrow> error + unit" where
  "all_return ob orderId st = Inr ()"

subsection \<open>In-memory menu repository\<close>

record SqliteMenuRepository =
  menu_items :: "MenuItem list"

definition SqliteMenuRepository_new :: "MenuItem list \<Rightarrow> SqliteMenuRepository" where
  "SqliteMenuRepository_new seed = \<lparr>menu_items = seed\<rparr>"

definition SqliteMenuRepository_findAll :: "SqliteMenuRepository \<Rightarrow> MenuItem list" where
  "SqliteMenuRepository_findAll repo = menu_items repo"

definition SqliteMenuRepository_findById :: "SqliteMenuRepository \<Rightarrow> string \<Rightarrow> MenuItem option" where
  "SqliteMenuRepository_findById repo i = find (\<lambda>m. mi_id m = i) (menu_items repo)"

text \<open>
  \<open>save\<close>: \<open>idx\<close> is an index of the array when it is not negative, so the assignment
  \<open>this._items[idx] = item\<close> overwrites an element and never extends the array.
\<close>

definition SqliteMenuRepository_save :: "SqliteMenuRepository \<Rightarrow> MenuItem \<Rightarrow> SqliteMenuRepository" where
  "SqliteMenuRepository_save repo item =
     (let idx = findIndex (\<lambda>m. mi_id m = mi_id item) (menu_items repo)
      in if 0 \<le> idx
         then repo\<lparr>menu_items := (menu_items repo)[nat idx := item]\<rparr>
         else repo\<lparr>menu_items := menu_items repo @ [item]\<rparr>)"

definition SqliteMenuRepository_toggleAvailability ::
  "SqliteMenuRepository \<Rightarrow> string \<Rightarrow> bool \<Rightarrow> SqliteMenuRepository" where
  "SqliteMenuRepository_toggleAvailability repo i avail =
     (case SqliteMenuRepository_findById repo i of
        Some item \<Rightarrow>
          repo\<lparr>menu_items := mutate_first (\<lambda>m. mi_id m = i) (\<lambda>m. m\<lparr>available := avail\<rparr>)
                                (menu_items repo)\<rparr>
      | None \<Rightarrow> repo)"

text \<open>Example items for the repository: a new id, and a changed record for the id \<open>m2\<close>.\<close>

definition example_new_item :: MenuItem where
  "example_new_item =
     \<lparr>mi_id = ''m3'', name = ''French Fries'', price = 6 / 5, category = ''SIDE'',
      tags = [''VEG''], available = True\<rparr>"

definition example_changed_item :: MenuItem where
  "example_changed_item =
     \<lparr>mi_id = ''m2'', name = ''Pizza Slice'', price = 5 / 2, category = ''MAIN'',
      tags = [], available = True\<rparr>"

section \<open>Rounding\<close>

text \<open>
  The rounding model does what its name says: \<open>binade\<close> brackets a positive number
  between consecutive powers of two, and \<open>binary64 x\<close>, a multiple of the unit in the last
  place by its definition, lies within half a unit of \<open>x\<close>.
\<close>

lemma round_half_even_near: "\<bar>of_int (round_half_even x) - x\<bar> \<le> 1 / 2"
proof -
  have a: "of_int \<lfloor>x\<rfloor> \<le> x" and b: "x < of_int \<lfloor>x\<rfloor> + 1"
    by linarith+
  show ?thesis
  proof (cases "x - of_int \<lfloor>x\<rfloor> < 1 / 2")
    case True
    with a show ?thesis by (simp add: round_half_even_def Let_def abs_le_iff)
  next
    case False
    show ?thesis
    proof (cases "1 / 2 < x - of_int \<lfloor>x\<rfloor>")
      case True
      with b False show ?thesis
        by (simp add: round_half_even_def Let_def abs_le_iff)
    next
      case F2: False
      with False have tie: "x - of_int \<lfloor>x\<rfloor> = 1 / 2" by simp
      then have r: "round_half_even x = (if even \<lfloor>x\<rfloor> then \<lfloor>x\<rfloor> else \<lfloor>x\<rfloor> + 1)"
        by (simp add: round_half_even_def Let_def)
      show ?thesis
      proof (cases "even \<lfloor>x\<rfloor>")
        case True
        with r have "of_int (round_half_even x) - x = of_int \<lfloor>x\<rfloor> - x" by simp
        also from tie have "\<dots> = - (1 / 2)" by linarith
        finally show ?thesis by simp
      next
        case False
        with r have "of_int (round_half_even x) - x = of_int \<lfloor>x\<rfloor> + 1 - x" by simp
        also from tie have "\<dots> = 1 / 2" by linarith
        finally show ?thesis by simp
      qed
    qed
  qed
qed

lemma binade_ge1:
  assumes "1 \<le> x"
  shows "2 powi (binade x) \<le> x \<and> x < 2 powi (binade x + 1)"
proof -
  let ?n = "\<lfloor>x\<rfloor>"
  from assms have n: "0 < ?n" by simp
  from bitlen_bounds [OF n] have lo: "2 ^ nat (bitlen ?n - 1) \<le> ?n" and hi: "?n < 2 ^ nat (bitlen ?n)"
    by simp_all
  from n have b: "1 \<le> bitlen ?n" by (auto simp: bitlen_alt_def)
  have "(2::rat) ^ nat (bitlen ?n - 1) = of_int (2 ^ nat (bitlen ?n - 1))" by simp
  also have "\<dots> \<le> of_int ?n" using lo by (simp only: of_int_le_iff)
  also have "\<dots> \<le> x" by simp
  finally have 1: "(2::rat) ^ nat (bitlen ?n - 1) \<le> x" .
  from hi have "?n + 1 \<le> 2 ^ nat (bitlen ?n)" by simp
  then have "of_int (?n + 1) \<le> (of_int (2 ^ nat (bitlen ?n)) :: rat)" by (simp only: of_int_le_iff)
  moreover have "x < of_int (?n + 1)" by linarith
  ultimately have 2: "x < 2 ^ nat (bitlen ?n)" by simp
  from assms b 1 2 show ?thesis
    by (simp add: binade_def power_int_def)
qed

lemma binade_lt1:
  assumes "0 < x" "x < 1"
  shows "2 powi (binade x) \<le> x \<and> x < 2 powi (binade x + 1)"
proof -
  let ?c = "\<lceil>1 / x\<rceil>"
  let ?m = "?c - 1"
  let ?k = "bitlen ?m"
  from assms have y: "1 < 1 / x" by simp
  then have c: "2 \<le> ?c" by linarith
  then have m: "0 < ?m" by simp
  from bitlen_bounds [OF m] have lo: "2 ^ nat (?k - 1) \<le> ?m" and hi: "?m < 2 ^ nat ?k"
    by simp_all
  from m have k: "1 \<le> ?k" by (auto simp: bitlen_alt_def)
  from hi have "?c \<le> 2 ^ nat ?k" by simp
  then have "of_int ?c \<le> (of_int (2 ^ nat ?k) :: rat)" by (simp only: of_int_le_iff)
  then have "of_int ?c \<le> (2 :: rat) ^ nat ?k" by simp
  moreover have "1 / x \<le> of_int ?c" by (rule le_of_int_ceiling)
  ultimately have "1 / x \<le> 2 ^ nat ?k" by (rule order_trans [rotated])
  with assms have 1: "1 / 2 ^ nat ?k \<le> x"
    by (simp add: field_simps)
  have "(of_int (2 ^ nat (?k - 1)) :: rat) \<le> of_int ?m" using lo by (simp only: of_int_le_iff)
  then have "(2 :: rat) ^ nat (?k - 1) \<le> of_int ?m" by simp
  moreover have "of_int ?m < 1 / x" by linarith
  ultimately have "2 ^ nat (?k - 1) < 1 / x" by (rule le_less_trans)
  with assms have 2: "x < 1 / 2 ^ nat (?k - 1)"
    by (simp add: field_simps)
  have e1: "(2::rat) powi (- ?k) = 1 / 2 ^ nat ?k"
    using k by (simp add: power_int_def field_simps)
  have e2: "(2::rat) powi (- ?k + 1) = 1 / 2 ^ nat (?k - 1)"
  proof (cases "?k = 1")
    case True
    then show ?thesis by simp
  next
    case False
    with k have "nat (?k - 1) = nat (- (- ?k + 1))" and "\<not> 0 \<le> - ?k + 1" by simp_all
    then show ?thesis by (simp add: power_int_def field_simps)
  qed
  from assms have "binade x = - ?k" by (simp add: binade_def)
  with 1 2 e1 e2 show ?thesis by simp
qed

lemma binade_bounds: "0 < x \<Longrightarrow> 2 powi (binade x) \<le> x \<and> x < 2 powi (binade x + 1)"
  using binade_ge1 [of x] binade_lt1 [of x] by (cases "1 \<le> x") simp_all

lemma binary64_near:
  "x \<noteq> 0 \<Longrightarrow> \<bar>binary64 x - x\<bar> \<le> 2 powi (binade \<bar>x\<bar> - 52) / 2"
proof -
  assume x: "x \<noteq> 0"
  define u :: rat where "u = 2 powi (binade \<bar>x\<bar> - 52)"
  define r where "r = round_half_even (\<bar>x\<bar> / u)"
  have u: "0 < u" by (simp add: u_def)
  have "\<bar>of_int r - \<bar>x\<bar> / u\<bar> \<le> 1 / 2"
    unfolding r_def by (rule round_half_even_near)
  then have "\<bar>of_int r - \<bar>x\<bar> / u\<bar> * u \<le> 1 / 2 * u"
    using u by (intro mult_right_mono) simp_all
  moreover have "(of_int r - \<bar>x\<bar> / u) * u = of_int r * u - \<bar>x\<bar>"
    using u by (simp add: field_simps)
  then have "\<bar>of_int r * u - \<bar>x\<bar>\<bar> = \<bar>of_int r - \<bar>x\<bar> / u\<bar> * \<bar>u\<bar>"
    by (simp only: abs_mult [symmetric])
  ultimately have near: "\<bar>of_int r * u - \<bar>x\<bar>\<bar> \<le> u / 2"
    using u by simp
  have b: "binary64 x = sgn x * of_int r * u"
    using x by (simp add: binary64_def Let_def u_def r_def)
  have "x = sgn x * \<bar>x\<bar>" by (simp add: sgn_mult_abs)
  then have "binary64 x - x = sgn x * (of_int r * u - \<bar>x\<bar>)"
    unfolding b by (simp add: algebra_simps)
  then have "\<bar>binary64 x - x\<bar> = \<bar>sgn x\<bar> * \<bar>of_int r * u - \<bar>x\<bar>\<bar>"
    by (simp only: abs_mult)
  also have "\<bar>sgn x\<bar> = 1" using x by (simp add: abs_sgn_eq)
  finally show ?thesis using near by (simp add: u_def)
qed

text \<open>
  Integers up to \<open>2^53\<close> are binary64 values, and the binary64 value of any integer is an
  integer.
\<close>

lemma round_half_even_of_int: "round_half_even (of_int k) = k"
  by (simp add: round_half_even_def Let_def)

lemma binary64_two_53: "binary64 9007199254740992 = 9007199254740992"
  by code_simp

lemma binary64_of_int_exact:
  assumes "0 < n" "n \<le> 9007199254740992"
  shows "binary64 (of_int n) = of_int n"
proof (cases "n = 9007199254740992")
  case True
  then show ?thesis using binary64_two_53 by simp
next
  case False
  with assms have lt: "n < 2 ^ 53" by simp
  define e where "e = bitlen n - 1"
  from assms have b: "1 \<le> bitlen n" by (auto simp: bitlen_alt_def)
  then have e0: "0 \<le> e" by (simp add: e_def)
  from bitlen_bounds [OF assms(1)] have "2 ^ nat e \<le> n"
    by (simp add: e_def)
  with lt have less: "(2::int) ^ nat e < 2 ^ 53" by linarith
  have "nat e < 53"
  proof (rule ccontr)
    assume "\<not> nat e < 53"
    then have "53 \<le> nat e" by simp
    then have "(2::int) ^ 53 \<le> 2 ^ nat e" by (rule power_increasing) simp
    with less show False by linarith
  qed
  with e0 have e52: "e \<le> 52" by linarith
  define k where "k = nat (52 - e)"
  from assms have x1: "(1::rat) \<le> of_int n" by simp
  then have bin: "binade \<bar>of_int n :: rat\<bar> = e"
    using assms by (simp add: binade_def e_def)
  have ulp: "(2::rat) powi (e - 52) = 1 / 2 ^ k"
    using e52 by (simp add: power_int_def k_def field_simps)
  have q: "\<bar>of_int n :: rat\<bar> / (1 / 2 ^ k) = of_int (n * 2 ^ k)"
    using assms by simp
  have "binary64 (of_int n) = sgn (of_int n :: rat) * of_int (round_half_even (of_int (n * 2 ^ k))) * (1 / 2 ^ k)"
    using assms unfolding binary64_def Let_def bin ulp q by simp
  also have "\<dots> = of_int n"
    using assms unfolding round_half_even_of_int by simp
  finally show ?thesis .
qed

lemma floor_binary64_exact:
  "0 < n \<Longrightarrow> n \<le> 9007199254740992 \<Longrightarrow> \<lfloor>binary64 (of_int n)\<rfloor> = n"
  by (simp add: binary64_of_int_exact)

lemma binary64_sgn_abs: "binary64 x = sgn x * binary64 \<bar>x\<bar>"
  by (cases "x = 0") (simp_all add: binary64_def Let_def)

lemma binary64_of_int_integral: "binary64 (of_int n) \<in> \<int>"
proof (cases "n = 0")
  case True
  then show ?thesis by (simp add: binary64_def)
next
  case False
  define a where "a = \<bar>n\<bar>"
  from False have a: "0 < a" by (simp add: a_def)
  have abs: "\<bar>of_int n :: rat\<bar> = of_int a" by (simp add: a_def)
  have sgn: "sgn (of_int n :: rat) = of_int (sgn n)" by (simp add: sgn_if)
  show ?thesis
  proof (cases "a \<le> 9007199254740992")
    case True
    with a have "binary64 (of_int a) = of_int a" by (rule binary64_of_int_exact)
    then have "binary64 (of_int n) = of_int (sgn n * a)"
      using binary64_sgn_abs [of "of_int n"] by (simp add: abs sgn)
    then show ?thesis by simp
  next
    case large: False
    define e where "e = bitlen a - 1"
    from bitlen_bounds [OF a] have "a < 2 ^ nat (e + 1)" by (simp add: e_def)
    with large have less: "(2::int) ^ 53 < 2 ^ nat (e + 1)" by simp
    have "53 < nat (e + 1)"
    proof (rule ccontr)
      assume "\<not> 53 < nat (e + 1)"
      then have "nat (e + 1) \<le> 53" by simp
      then have "(2::int) ^ nat (e + 1) \<le> 2 ^ 53" by (rule power_increasing) simp
      with less show False by linarith
    qed
    then have e: "0 \<le> e - 52" by linarith
    from a have "(1::rat) \<le> of_int a" by simp
    then have bin: "binade (of_int a) = e"
      by (simp add: binade_def e_def)
    have ulp: "(2::rat) powi (e - 52) = of_int (2 ^ nat (e - 52))"
      using e by (simp add: power_int_def)
    have "binary64 (of_int n) =
        of_int (sgn n * round_half_even (of_int a / of_int (2 ^ nat (e - 52))) * 2 ^ nat (e - 52))"
      using False unfolding binary64_def Let_def abs bin ulp sgn by simp
    then show ?thesis by (simp only: Ints_of_int)
  qed
qed

lemma of_int_floor_binary64: "of_int \<lfloor>binary64 (of_int n)\<rfloor> = binary64 (of_int n)"
  using binary64_of_int_integral [of n] by (auto elim: Ints_cases)

section \<open>Pricing\<close>

lemma Simple_loop_step:
  "Simple_loop rnd menu (ci # rest) tot =
     Simple_loop rnd menu rest
       (if priced menu ci then rnd (tot + rnd (unit_price menu ci * of_int (quantity ci)))
        else tot)"
  by (simp add: priced_def unit_price_def split: option.split)

lemma Simple_loop_foldl:
  "Simple_loop rnd menu items tot =
     foldl (\<lambda>t ci. rnd (t + rnd (unit_price menu ci * of_int (quantity ci)))) tot
       (filter (priced menu) items)"
proof (induction items arbitrary: tot)
  case Nil
  show ?case by simp
next
  case (Cons ci rest)
  show ?case
    unfolding Simple_loop_step by (simp add: Cons.IH)
qed

lemma Simple_loop_exact:
  "Simple_loop id menu items tot = tot + (\<Sum>ci\<leftarrow>items. line_total menu ci)"
proof (induction items arbitrary: tot)
  case Nil
  show ?case by simp
next
  case (Cons ci rest)
  show ?case
    unfolding Simple_loop_step by (simp add: Cons.IH line_total_def)
qed

lemma find_first_match:
  "P x \<Longrightarrow> \<forall>y\<in>set pre. \<not> P y \<Longrightarrow> find P (pre @ x # post) = Some x"
  by (induction pre) simp_all

lemma find_no_match: "\<forall>y\<in>set xs. \<not> P y \<Longrightarrow> find P xs = None"
  by (simp add: find_None_iff)

lemma line_total_first_match:
  "menu = pre @ mi # post \<Longrightarrow> mi_id mi = menuItemId ci \<Longrightarrow>
     \<forall>m\<in>set pre. mi_id m \<noteq> menuItemId ci \<Longrightarrow>
     line_total menu ci = (if available mi then price mi * of_int (quantity ci) else 0)"
  by (simp add: line_total_def priced_def unit_price_def find_first_match)

lemma line_total_no_match:
  "\<forall>m\<in>set menu. mi_id m \<noteq> menuItemId ci \<Longrightarrow> line_total menu ci = 0"
  by (simp add: line_total_def priced_def find_no_match)

text \<open>
  Claim C1. For every sequence of cart items and every menu,
  \<open>SimplePricingStrategy.computeTotal\<close> returns the sum over the cart items of
  \<open>price * quantity\<close>, the price being that of the first menu item whose id equals the cart
  item's \<open>menuItemId\<close>; a cart item that matches no menu item, or whose matched menu item is
  unavailable, is skipped and contributes zero. First conjunct: in exact arithmetic the
  result is the sum of the line totals. Second conjunct: under any rounding the result is
  the running sum, in cart order, over exactly the priced items. Third and fourth
  conjunct: the line total of a cart item is \<open>price * quantity\<close> of the first menu item with
  its id when that item is available, and zero when that item is unavailable or no menu
  item has the id.
\<close>

theorem Simple_computeTotal_sum:
  "SimplePricingStrategy_computeTotal id items menu = (\<Sum>ci\<leftarrow>items. line_total menu ci) \<and>
   SimplePricingStrategy_computeTotal rnd items menu =
     foldl (\<lambda>t ci. rnd (t + rnd (unit_price menu ci * of_int (quantity ci)))) 0
       (filter (priced menu) items) \<and>
   (menu = pre @ mi # post \<and> mi_id mi = menuItemId ci \<and>
    (\<forall>m\<in>set pre. mi_id m \<noteq> menuItemId ci) \<longrightarrow>
      line_total menu ci = (if available mi then price mi * of_int (quantity ci) else 0)) \<and>
   ((\<forall>m\<in>set menu. mi_id m \<noteq> menuItemId ci) \<longrightarrow> line_total menu ci = 0)"
proof (intro conjI impI)
  show "SimplePricingStrategy_computeTotal id items menu = (\<Sum>ci\<leftarrow>items. line_total menu ci)"
    by (simp add: SimplePricingStrategy_computeTotal_def Simple_loop_exact)
next
  show "SimplePricingStrategy_computeTotal rnd items menu =
     foldl (\<lambda>t ci. rnd (t + rnd (unit_price menu ci * of_int (quantity ci)))) 0
       (filter (priced menu) items)"
    by (simp only: SimplePricingStrategy_computeTotal_def Simple_loop_foldl)
next
  assume "menu = pre @ mi # post \<and> mi_id mi = menuItemId ci \<and>
    (\<forall>m\<in>set pre. mi_id m \<noteq> menuItemId ci)"
  then show "line_total menu ci = (if available mi then price mi * of_int (quantity ci) else 0)"
    using line_total_first_match [of menu pre mi post ci] by blast
next
  assume "\<forall>m\<in>set menu. mi_id m \<noteq> menuItemId ci"
  then show "line_total menu ci = 0"
    by (rule line_total_no_match)
qed

theorem Simple_computeTotal_sum_witness:
  "line_total repeated_id_menu \<lparr>menuItemId = ''m1'', quantity = 2\<rparr> = 7 \<and>
   line_total repeated_id_menu \<lparr>menuItemId = ''m9'', quantity = 2\<rparr> = 0 \<and>
   SimplePricingStrategy_computeTotal id
     [\<lparr>menuItemId = ''m1'', quantity = 2\<rparr>, \<lparr>menuItemId = ''m9'', quantity = 2\<rparr>,
      \<lparr>menuItemId = ''m2'', quantity = 1\<rparr>] repeated_id_menu = 7"
proof -
  let ?m1 = "\<lparr>menuItemId = ''m1'', quantity = 2\<rparr>"
  let ?m9 = "\<lparr>menuItemId = ''m9'', quantity = 2\<rparr>"
  let ?m2 = "\<lparr>menuItemId = ''m2'', quantity = 1\<rparr>"
  let ?first = "repeated_id_menu ! 1"
  have split: "repeated_id_menu = [repeated_id_menu ! 0] @ ?first # [repeated_id_menu ! 2]"
    by (simp add: repeated_id_menu_def)
  have match: "mi_id ?first = menuItemId ?m1"
    by (simp add: repeated_id_menu_def)
  have before: "\<forall>m\<in>set [repeated_id_menu ! 0]. mi_id m \<noteq> menuItemId ?m1"
    by (simp add: repeated_id_menu_def)
  have unknown: "\<forall>m\<in>set repeated_id_menu. mi_id m \<noteq> menuItemId ?m9"
    by (simp add: repeated_id_menu_def)
  have first: "available ?first" "price ?first = 7 / 2"
    by (simp_all add: repeated_id_menu_def)
  from Simple_computeTotal_sum [where menu = repeated_id_menu and pre = "[repeated_id_menu ! 0]"
      and mi = ?first and post = "[repeated_id_menu ! 2]" and ci = ?m1] split match before
  have a: "line_total repeated_id_menu ?m1 =
      (if available ?first then price ?first * of_int (quantity ?m1) else 0)"
    by blast
  from Simple_computeTotal_sum [where menu = repeated_id_menu and ci = ?m9] unknown
  have b: "line_total repeated_id_menu ?m9 = 0"
    by blast
  have c: "line_total repeated_id_menu ?m2 = 0"
    by (simp add: line_total_def priced_def repeated_id_menu_def)
  from Simple_computeTotal_sum [where menu = repeated_id_menu and items = "[?m1, ?m9, ?m2]"]
  have "SimplePricingStrategy_computeTotal id [?m1, ?m9, ?m2] repeated_id_menu =
      (\<Sum>ci\<leftarrow>[?m1, ?m9, ?m2]. line_total repeated_id_menu ci)"
    by blast
  with a b c first show ?thesis by simp
qed









text \<open>
  Claim C9. With the menu holding \<open>m1\<close> (price 3.50, available) and \<open>m2\<close> (price 2.00,
  unavailable): on the cart \<open>[CartItem(m1,2), CartItem(m2,1)]\<close> both strategies return
  exactly 7.00; on the cart \<open>[CartItem(m1,4)]\<close> the simple strategy returns exactly 14.00
  and the combo strategy exactly 12.60. The first four conjuncts are the results in exact
  arithmetic, the last four the results under binary64 rounding, where 12.60 stands for
  the binary64 value of that literal.
\<close>

theorem scenario_totals:
  "SimplePricingStrategy_computeTotal id scenario_cart_mixed scenario_menu = 7 \<and>
   ComboPricingStrategy_computeTotal id scenario_cart_mixed scenario_menu = 7 \<and>
   SimplePricingStrategy_computeTotal id scenario_cart_four scenario_menu = 14 \<and>
   ComboPricingStrategy_computeTotal id scenario_cart_four scenario_menu = 63 / 5 \<and>
   SimplePricingStrategy_computeTotal binary64 scenario_cart_mixed scenario_menu = 7 \<and>
   ComboPricingStrategy_computeTotal binary64 scenario_cart_mixed scenario_menu = 7 \<and>
   SimplePricingStrategy_computeTotal binary64 scenario_cart_four scenario_menu = 14 \<and>
   ComboPricingStrategy_computeTotal binary64 scenario_cart_four scenario_menu =
     binary64 (63 / 5)"
proof -
  have b7: "binary64 7 = 7" by code_simp
  have b14: "binary64 14 = 14" by code_simp
  have b126: "binary64 (14 * binary64 (9 / 10)) = binary64 (63 / 5)" by code_simp
  have e1: "SimplePricingStrategy_computeTotal id scenario_cart_mixed scenario_menu = 7"
    by (simp add: SimplePricingStrategy_computeTotal_def scenario_cart_mixed_def
        scenario_menu_def)
  have e2: "ComboPricingStrategy_computeTotal id scenario_cart_mixed scenario_menu = 7"
    by (simp add: ComboPricingStrategy_computeTotal_def scenario_cart_mixed_def
        scenario_menu_def)
  have e3: "SimplePricingStrategy_computeTotal id scenario_cart_four scenario_menu = 14"
    by (simp add: SimplePricingStrategy_computeTotal_def scenario_cart_four_def
        scenario_menu_def)
  have e4: "ComboPricingStrategy_computeTotal id scenario_cart_four scenario_menu = 63 / 5"
    by (simp add: ComboPricingStrategy_computeTotal_def scenario_cart_four_def
        scenario_menu_def)
  have f1: "SimplePricingStrategy_computeTotal binary64 scenario_cart_mixed scenario_menu = 7"
    by (simp add: SimplePricingStrategy_computeTotal_def scenario_cart_mixed_def
        scenario_menu_def b7)
  have f2: "ComboPricingStrategy_computeTotal binary64 scenario_cart_mixed scenario_menu = 7"
    by (simp add: ComboPricingStrategy_computeTotal_def scenario_cart_mixed_def
        scenario_menu_def b7)
  have f3: "SimplePricingStrategy_computeTotal binary64 scenario_cart_four scenario_menu = 14"
    by (simp add: SimplePricingStrategy_computeTotal_def scenario_cart_four_def
        scenario_menu_def b14)
  have f4: "ComboPricingStrategy_computeTotal binary64 scenario_cart_four scenario_menu =
     binary64 (63 / 5)"
    by (simp add: ComboPricingStrategy_computeTotal_def scenario_cart_four_def
        scenario_menu_def b14 b126)
  from e1 e2 e3 e4 f1 f2 f3 f4 show ?thesis by blast
qed

section \<open>Order status\<close>

lemma advanceStatus_status:
  "status (Order_advanceStatus order) =
     (if status order = RECEIVED then PREPARING
      else if status order = PREPARING then READY
      else if status order = READY then PICKED_UP
      else status order)"
  by (simp add: Order_advanceStatus_def indexOf_def findIndex_def Let_def
      RECEIVED_def PREPARING_def READY_def PICKED_UP_def)

lemma advanceStatus_noop:
  "status order \<noteq> RECEIVED \<Longrightarrow> status order \<noteq> PREPARING \<Longrightarrow> status order \<noteq> READY \<Longrightarrow>
     Order_advanceStatus order = order"
  by (simp add: Order_advanceStatus_def indexOf_def findIndex_def Let_def
      RECEIVED_def PREPARING_def READY_def PICKED_UP_def)

lemma advanceStatus_frame:
  "Order_advanceStatus order = order\<lparr>status := status (Order_advanceStatus order)\<rparr>"
  by (simp add: Order_advanceStatus_def Let_def)

lemma advanceStatus_from_RECEIVED:
  "Order_advanceStatus (order\<lparr>status := RECEIVED\<rparr>) = order\<lparr>status := PREPARING\<rparr>"
  by (simp add: Order_advanceStatus_def indexOf_def findIndex_def Let_def
      RECEIVED_def PREPARING_def READY_def PICKED_UP_def)

lemma advanceStatus_from_PREPARING:
  "Order_advanceStatus (order\<lparr>status := PREPARING\<rparr>) = order\<lparr>status := READY\<rparr>"
  by (simp add: Order_advanceStatus_def indexOf_def findIndex_def Let_def
      RECEIVED_def PREPARING_def READY_def PICKED_UP_def)

lemma advanceStatus_from_READY:
  "Order_advanceStatus (order\<lparr>status := READY\<rparr>) = order\<lparr>status := PICKED_UP\<rparr>"
  by (simp add: Order_advanceStatus_def indexOf_def findIndex_def Let_def
      RECEIVED_def PREPARING_def READY_def PICKED_UP_def)

lemma advanceStatus_from_PICKED_UP:
  "Order_advanceStatus (order\<lparr>status := PICKED_UP\<rparr>) = order\<lparr>status := PICKED_UP\<rparr>"
  by (simp add: Order_advanceStatus_def indexOf_def findIndex_def Let_def
      RECEIVED_def PREPARING_def READY_def PICKED_UP_def)

text \<open>
  Claim C3. \<open>Order.advanceStatus\<close> moves the status to the next state of
  \<open>RECEIVED \<rightarrow> PREPARING \<rightarrow> READY \<rightarrow> PICKED_UP\<close> and changes nothing else; on \<open>PICKED_UP\<close>,
  or on any status outside the list, the order is returned unchanged: no error, no wrap
  to \<open>RECEIVED\<close>, no stage skipped. From \<open>RECEIVED\<close> the successive applications give
  \<open>PREPARING\<close>, \<open>READY\<close>, \<open>PICKED_UP\<close>, \<open>PICKED_UP\<close>, and the fifth leaves the order as the
  fourth did.
\<close>

theorem advanceStatus_linear:
  "status (Order_advanceStatus order) =
     (if status order = RECEIVED then PREPARING
      else if status order = PREPARING then READY
      else if status order = READY then PICKED_UP
      else status order) \<and>
   Order_advanceStatus order = order\<lparr>status := status (Order_advanceStatus order)\<rparr> \<and>
   (status order = PICKED_UP \<or> status order \<notin> {RECEIVED, PREPARING, READY, PICKED_UP} \<longrightarrow>
      Order_advanceStatus order = order) \<and>
   (Order_advanceStatus ^^ 1) (order\<lparr>status := RECEIVED\<rparr>) = order\<lparr>status := PREPARING\<rparr> \<and>
   (Order_advanceStatus ^^ 2) (order\<lparr>status := RECEIVED\<rparr>) = order\<lparr>status := READY\<rparr> \<and>
   (Order_advanceStatus ^^ 3) (order\<lparr>status := RECEIVED\<rparr>) = order\<lparr>status := PICKED_UP\<rparr> \<and>
   (Order_advanceStatus ^^ 4) (order\<lparr>status := RECEIVED\<rparr>) = order\<lparr>status := PICKED_UP\<rparr> \<and>
   (Order_advanceStatus ^^ 5) (order\<lparr>status := RECEIVED\<rparr>) = order\<lparr>status := PICKED_UP\<rparr>"
proof (intro conjI impI)
  show "status (Order_advanceStatus order) =
     (if status order = RECEIVED then PREPARING
      else if status order = PREPARING then READY
      else if status order = READY then PICKED_UP
      else status order)"
    by (rule advanceStatus_status)
next
  show "Order_advanceStatus order = order\<lparr>status := status (Order_advanceStatus order)\<rparr>"
    by (rule advanceStatus_frame)
next
  assume "status order = PICKED_UP \<or> status order \<notin> {RECEIVED, PREPARING, READY, PICKED_UP}"
  then have "status order \<noteq> RECEIVED" "status order \<noteq> PREPARING" "status order \<noteq> READY"
    by (auto simp: RECEIVED_def PREPARING_def READY_def PICKED_UP_def)
  then show "Order_advanceStatus order = order"
    by (rule advanceStatus_noop)
next
  let ?adv = Order_advanceStatus
  have a1: "?adv (order\<lparr>status := RECEIVED\<rparr>) = order\<lparr>status := PREPARING\<rparr>"
    by (rule advanceStatus_from_RECEIVED)
  have a2: "?adv (order\<lparr>status := PREPARING\<rparr>) = order\<lparr>status := READY\<rparr>"
    by (rule advanceStatus_from_PREPARING)
  have a3: "?adv (order\<lparr>status := READY\<rparr>) = order\<lparr>status := PICKED_UP\<rparr>"
    by (rule advanceStatus_from_READY)
  have a4: "?adv (order\<lparr>status := PICKED_UP\<rparr>) = order\<lparr>status := PICKED_UP\<rparr>"
    by (rule advanceStatus_from_PICKED_UP)
  show "(?adv ^^ 1) (order\<lparr>status := RECEIVED\<rparr>) = order\<lparr>status := PREPARING\<rparr>"
    by (simp add: a1)
  show "(?adv ^^ 2) (order\<lparr>status := RECEIVED\<rparr>) = order\<lparr>status := READY\<rparr>"
    by (simp add: eval_nat_numeral a1 a2)
  show "(?adv ^^ 3) (order\<lparr>status := RECEIVED\<rparr>) = order\<lparr>status := PICKED_UP\<rparr>"
    by (simp add: eval_nat_numeral a1 a2 a3)
  show "(?adv ^^ 4) (order\<lparr>status := RECEIVED\<rparr>) = order\<lparr>status := PICKED_UP\<rparr>"
    by (simp add: eval_nat_numeral a1 a2 a3 a4)
  show "(?adv ^^ 5) (order\<lparr>status := RECEIVED\<rparr>) = order\<lparr>status := PICKED_UP\<rparr>"
    by (simp add: eval_nat_numeral a1 a2 a3 a4)
qed

theorem advanceStatus_linear_witness:
  "(status (example_order\<lparr>status := PICKED_UP\<rparr>) = PICKED_UP \<and>
    Order_advanceStatus (example_order\<lparr>status := PICKED_UP\<rparr>) =
      example_order\<lparr>status := PICKED_UP\<rparr>) \<and>
   (status (example_order\<lparr>status := ''CANCELLED''\<rparr>) \<notin> {RECEIVED, PREPARING, READY, PICKED_UP} \<and>
    Order_advanceStatus (example_order\<lparr>status := ''CANCELLED''\<rparr>) =
      example_order\<lparr>status := ''CANCELLED''\<rparr>)"
proof -
  have p: "status (example_order\<lparr>status := PICKED_UP\<rparr>) = PICKED_UP"
    by simp
  have c: "status (example_order\<lparr>status := ''CANCELLED''\<rparr>) \<notin> {RECEIVED, PREPARING, READY, PICKED_UP}"
    by (simp add: RECEIVED_def PREPARING_def READY_def PICKED_UP_def)
  from p advanceStatus_linear [of "example_order\<lparr>status := PICKED_UP\<rparr>"]
  have "Order_advanceStatus (example_order\<lparr>status := PICKED_UP\<rparr>) =
      example_order\<lparr>status := PICKED_UP\<rparr>"
    by blast
  moreover from c advanceStatus_linear [of "example_order\<lparr>status := ''CANCELLED''\<rparr>"]
  have "Order_advanceStatus (example_order\<lparr>status := ''CANCELLED''\<rparr>) =
      example_order\<lparr>status := ''CANCELLED''\<rparr>"
    by blast
  ultimately show ?thesis using p c by blast
qed

section \<open>Cart\<close>

lemma find_mutate_first:
  "find (\<lambda>ci. menuItemId ci = m')
     (mutate_first (\<lambda>ci. menuItemId ci = m) (\<lambda>ci. ci\<lparr>quantity := g ci\<rparr>) xs) =
   (if m' = m
    then map_option (\<lambda>ci. ci\<lparr>quantity := g ci\<rparr>) (find (\<lambda>ci. menuItemId ci = m') xs)
    else find (\<lambda>ci. menuItemId ci = m') xs)"
  by (induction xs) auto

lemma find_snoc:
  "find P (xs @ [y]) = (case find P xs of None \<Rightarrow> (if P y then Some y else None) | Some x \<Rightarrow> Some x)"
  by (induction xs) auto

lemma ids_mutate_first:
  "map menuItemId
     (mutate_first (\<lambda>ci. menuItemId ci = m) (\<lambda>ci. ci\<lparr>quantity := g ci\<rparr>) xs) =
   map menuItemId xs"
  by (induction xs) auto

lemma find_None_ids: "find (\<lambda>ci. menuItemId ci = m) xs = None \<longleftrightarrow> m \<notin> set (map menuItemId xs)"
  by (induction xs) auto

lemma addItem_nonpositive: "qty \<le> 0 \<Longrightarrow> Cart_addItem rnd cart mid qty = cart"
  by (simp add: Cart_addItem_def)

lemma addItem_ids:
  "map menuItemId (cart_items (Cart_addItem rnd cart mid qty)) =
     (if qty \<le> 0 \<or> mid \<in> set (map menuItemId (cart_items cart))
      then map menuItemId (cart_items cart)
      else map menuItemId (cart_items cart) @ [mid])"
proof (cases "find (\<lambda>ci. menuItemId ci = mid) (cart_items cart)")
  case None
  then have "mid \<notin> set (map menuItemId (cart_items cart))"
    using find_None_ids [of mid "cart_items cart"] by simp
  with None show ?thesis
    by (simp add: Cart_addItem_def)
next
  case (Some existing)
  then have "mid \<in> set (map menuItemId (cart_items cart))"
    using find_None_ids [of mid "cart_items cart"] by simp
  with Some show ?thesis
    by (simp add: Cart_addItem_def ids_mutate_first)
qed

lemma addItem_distinct:
  "distinct (map menuItemId (cart_items cart)) \<Longrightarrow>
     distinct (map menuItemId (cart_items (Cart_addItem rnd cart mid qty)))"
  unfolding addItem_ids by simp

text \<open>
  The quantity held for an id after one call: the call's quantity when the id is new,
  the rounded sum when the id has a line, and what it was for every other id and for a
  call that is not positive.
\<close>

lemma addItem_quantity:
  "cart_quantity (Cart_addItem rnd cart mid qty) m' =
     (if mid = m' \<and> 0 < qty
      then (case find (\<lambda>ci. menuItemId ci = mid) (cart_items cart) of
              None \<Rightarrow> qty
            | Some ci \<Rightarrow> \<lfloor>rnd (of_int (quantity ci) + of_int qty)\<rfloor>)
      else cart_quantity cart m')"
proof (cases "qty \<le> 0")
  case True
  then show ?thesis by (simp add: addItem_nonpositive)
next
  case False
  show ?thesis
  proof (cases "find (\<lambda>ci. menuItemId ci = mid) (cart_items cart)")
    case None
    with False show ?thesis
      by (auto simp: Cart_addItem_def cart_quantity_def find_snoc split: option.splits)
  next
    case (Some existing)
    with False show ?thesis
      by (auto simp: Cart_addItem_def cart_quantity_def find_mutate_first split: option.splits)
  qed
qed

lemma addItem_quantity_exact:
  "cart_quantity (Cart_addItem id cart mid qty) m' =
     cart_quantity cart m' + (if mid = m' \<and> 0 < qty then qty else 0)"
  unfolding addItem_quantity by (simp add: cart_quantity_def split: option.split)

lemma addItem_quantity_binary64:
  assumes "0 \<le> cart_quantity cart m'"
    and "cart_quantity cart m' + (if mid = m' \<and> 0 < qty then qty else 0) \<le> 9007199254740992"
  shows "cart_quantity (Cart_addItem binary64 cart mid qty) m' =
     cart_quantity cart m' + (if mid = m' \<and> 0 < qty then qty else 0)"
proof (cases "mid = m' \<and> 0 < qty")
  case False
  then show ?thesis by (auto simp: addItem_quantity)
next
  case True
  show ?thesis
  proof (cases "find (\<lambda>ci. menuItemId ci = mid) (cart_items cart)")
    case None
    with True have z: "cart_quantity cart m' = 0"
      by (simp add: cart_quantity_def)
    from True None have "cart_quantity (Cart_addItem binary64 cart mid qty) m' = qty"
      by (simp add: addItem_quantity)
    with True z show ?thesis by simp
  next
    case (Some ci)
    with True have q: "cart_quantity cart m' = quantity ci"
      by (simp add: cart_quantity_def)
    with assms True have "0 < quantity ci + qty" and "quantity ci + qty \<le> 9007199254740992"
      by simp_all
    then have "\<lfloor>binary64 (of_int (quantity ci + qty))\<rfloor> = quantity ci + qty"
      by (rule floor_binary64_exact)
    then have "\<lfloor>binary64 (of_int (quantity ci) + of_int qty)\<rfloor> = quantity ci + qty"
      by (simp only: of_int_add)
    with True Some q show ?thesis
      by (simp only: addItem_quantity) simp
  qed
qed

lemma addItem_calls_snoc:
  "addItem_calls rnd (calls @ [(mid, qty)]) = Cart_addItem rnd (addItem_calls rnd calls) mid qty"
  by (simp add: addItem_calls_def)

lemma supplied_snoc:
  "supplied (calls @ [(mid, qty)]) m' =
     supplied calls m' + (if mid = m' \<and> 0 < qty then qty else 0)"
  by (simp add: supplied_def)

lemma supplied_nonneg: "0 \<le> supplied calls m'"
  unfolding supplied_def by (induction calls) auto

lemma addItem_calls_distinct: "distinct (map menuItemId (cart_items (addItem_calls rnd calls)))"
proof (induction calls rule: rev_induct)
  case Nil
  show ?case by (simp add: addItem_calls_def Cart_new_def)
next
  case (snoc c calls)
  obtain mid qty where c: "c = (mid, qty)" by (cases c)
  show ?case
    unfolding c addItem_calls_snoc by (rule addItem_distinct) (rule snoc.IH)
qed

lemma addItem_calls_member:
  "m' \<in> set (map menuItemId (cart_items (addItem_calls rnd calls))) \<longleftrightarrow> 0 < supplied calls m'"
proof (induction calls rule: rev_induct)
  case Nil
  show ?case by (simp add: addItem_calls_def Cart_new_def supplied_def)
next
  case (snoc c calls)
  obtain mid qty where c: "c = (mid, qty)" by (cases c)
  from snoc.IH supplied_nonneg [of calls m'] show ?case
    unfolding c addItem_calls_snoc addItem_ids supplied_snoc by auto
qed

lemma addItem_calls_quantity_exact: "cart_quantity (addItem_calls id calls) m' = supplied calls m'"
proof (induction calls rule: rev_induct)
  case Nil
  show ?case by (simp add: addItem_calls_def Cart_new_def cart_quantity_def supplied_def)
next
  case (snoc c calls)
  obtain mid qty where c: "c = (mid, qty)" by (cases c)
  show ?case
    unfolding c addItem_calls_snoc addItem_quantity_exact supplied_snoc by (simp add: snoc.IH)
qed

lemma addItem_calls_quantity_binary64:
  "supplied calls m' \<le> 9007199254740992 \<Longrightarrow>
     cart_quantity (addItem_calls binary64 calls) m' = supplied calls m'"
proof (induction calls rule: rev_induct)
  case Nil
  show ?case by (simp add: addItem_calls_def Cart_new_def cart_quantity_def supplied_def)
next
  case (snoc c calls)
  obtain mid qty where c: "c = (mid, qty)" by (cases c)
  from snoc.prems have bound: "supplied calls m' + (if mid = m' \<and> 0 < qty then qty else 0)
      \<le> 9007199254740992"
    by (simp only: c supplied_snoc)
  then have "supplied calls m' \<le> 9007199254740992"
    by (simp split: if_splits)
  then have IH: "cart_quantity (addItem_calls binary64 calls) m' = supplied calls m'"
    by (rule snoc.IH)
  have "cart_quantity (Cart_addItem binary64 (addItem_calls binary64 calls) mid qty) m' =
      cart_quantity (addItem_calls binary64 calls) m' +
        (if mid = m' \<and> 0 < qty then qty else 0)"
  proof (rule addItem_quantity_binary64)
    show "0 \<le> cart_quantity (addItem_calls binary64 calls) m'"
      unfolding IH by (rule supplied_nonneg)
    show "cart_quantity (addItem_calls binary64 calls) m' +
        (if mid = m' \<and> 0 < qty then qty else 0) \<le> 9007199254740992"
      unfolding IH by (rule bound)
  qed
  then show ?case
    unfolding c addItem_calls_snoc supplied_snoc by (simp only: IH)
qed

lemma distinct_map_at_most_one:
  "distinct (map f xs) \<Longrightarrow> length (filter (\<lambda>y. f y = m) xs) \<le> 1"
proof (induction xs)
  case Nil
  show ?case by simp
next
  case (Cons x xs)
  show ?case
  proof (cases "f x = m")
    case True
    with Cons.prems have "m \<notin> f ` set xs"
      by simp
    then have "filter (\<lambda>y. f y = m) xs = []"
      unfolding filter_empty_conv by blast
    with True show ?thesis by simp
  next
    case False
    with Cons show ?thesis by simp
  qed
qed

text \<open>
  Claim C4, as the code has it. After any sequence of \<open>Cart.addItem\<close> calls with integer
  quantities on a new cart, the cart holds at most one line per \<open>menuItemId\<close> (the ids of
  its lines are pairwise distinct), and it has a line for an id exactly when a positive
  quantity was supplied for that id. For each id whose positive \<open>qty\<close> arguments sum to at
  most \<open>2^53 = 9007199254740992\<close>, the quantity held equals that sum; beyond it the
  binary64 addition of \<open>quantity += qty\<close> rounds. In exact arithmetic the quantity held
  equals the sum without a bound. A call with \<open>qty \<le> 0\<close> returns the cart unchanged,
  whatever the cart.
\<close>

theorem addItem_calls_invariant:
  "distinct (map menuItemId (cart_items (addItem_calls rnd calls))) \<and>
   length (filter (\<lambda>ci. menuItemId ci = mid) (cart_items (addItem_calls rnd calls))) \<le> 1 \<and>
   (mid \<in> set (map menuItemId (cart_items (addItem_calls rnd calls))) \<longleftrightarrow>
      0 < supplied calls mid) \<and>
   (supplied calls mid \<le> 9007199254740992 \<longrightarrow>
      cart_quantity (addItem_calls binary64 calls) mid = supplied calls mid) \<and>
   cart_quantity (addItem_calls id calls) mid = supplied calls mid \<and>
   (qty \<le> 0 \<longrightarrow> Cart_addItem rnd cart mid qty = cart)"
proof (intro conjI impI)
  show d: "distinct (map menuItemId (cart_items (addItem_calls rnd calls)))"
    by (rule addItem_calls_distinct)
  show "length (filter (\<lambda>ci. menuItemId ci = mid) (cart_items (addItem_calls rnd calls))) \<le> 1"
    using d by (rule distinct_map_at_most_one)
  show "mid \<in> set (map menuItemId (cart_items (addItem_calls rnd calls))) \<longleftrightarrow>
      0 < supplied calls mid"
    by (rule addItem_calls_member)
  show "cart_quantity (addItem_calls id calls) mid = supplied calls mid"
    by (rule addItem_calls_quantity_exact)
next
  assume "supplied calls mid \<le> 9007199254740992"
  then show "cart_quantity (addItem_calls binary64 calls) mid = supplied calls mid"
    by (rule addItem_calls_quantity_binary64)
next
  assume "qty \<le> 0"
  then show "Cart_addItem rnd cart mid qty = cart"
    by (rule addItem_nonpositive)
qed

theorem addItem_calls_invariant_witness:
  "supplied [(''m1'', 2), (''m2'', 1), (''m1'', 0), (''m1'', 3)] ''m1'' = 5 \<and>
   (5 :: int) \<le> 9007199254740992 \<and>
   cart_quantity (addItem_calls binary64 [(''m1'', 2), (''m2'', 1), (''m1'', 0), (''m1'', 3)])
     ''m1'' = 5 \<and>
   (- 5 :: int) \<le> 0 \<and>
   Cart_addItem binary64
     (addItem_calls binary64 [(''m1'', 2), (''m2'', 1), (''m1'', 0), (''m1'', 3)]) ''m1'' (- 5) =
     addItem_calls binary64 [(''m1'', 2), (''m2'', 1), (''m1'', 0), (''m1'', 3)]"
proof -
  let ?calls = "[(''m1'', 2), (''m2'', 1), (''m1'', 0), (''m1'', 3 :: int)]"
  have n: "(- 5 :: int) \<le> 0" by simp
  have s: "supplied ?calls ''m1'' = 5"
    by (simp add: supplied_def)
  then have b: "supplied ?calls ''m1'' \<le> 9007199254740992"
    by simp
  from addItem_calls_invariant
    [of binary64 ?calls "''m1''" "- 5" "addItem_calls binary64 ?calls"] n b
  have "Cart_addItem binary64 (addItem_calls binary64 ?calls) ''m1'' (- 5) =
      addItem_calls binary64 ?calls"
    and "cart_quantity (addItem_calls binary64 ?calls) ''m1'' = supplied ?calls ''m1''"
    by blast+
  with n s show ?thesis by simp
qed

text \<open>
  Claim C4 as the specification states it fails beyond \<open>2^53\<close>: after
  \<open>addItem("m1", 9007199254740992)\<close> and \<open>addItem("m1", 1)\<close> the positive quantities
  supplied for \<open>m1\<close> sum to 9007199254740993, and the cart holds 9007199254740992.
\<close>

theorem addItem_rounds_counterexample:
  "supplied [(''m1'', 9007199254740992), (''m1'', 1)] ''m1'' = 9007199254740993 \<and>
   cart_quantity (addItem_calls binary64 [(''m1'', 9007199254740992), (''m1'', 1)]) ''m1'' =
     9007199254740992"
proof
  show "supplied [(''m1'', 9007199254740992), (''m1'', 1)] ''m1'' = 9007199254740993"
    by (simp add: supplied_def)
next
  have r: "\<lfloor>binary64 9007199254740993\<rfloor> = 9007199254740992"
    by code_simp
  show "cart_quantity (addItem_calls binary64 [(''m1'', 9007199254740992), (''m1'', 1)]) ''m1'' =
     9007199254740992"
    by (simp add: addItem_calls_def Cart_addItem_def Cart_new_def cart_quantity_def r)
qed

section \<open>Observers\<close>

lemma notify_loop_calls:
  "snd (notify_loop h obs orderId st calls) =
     calls @ map (\<lambda>ob. (ob, orderId, st)) (reached h orderId st obs)"
proof (induction obs arbitrary: calls)
  case Nil
  show ?case by (simp add: reached_def)
next
  case (Cons ob rest)
  show ?case
  proof (cases "h ob orderId st")
    case (Inl e)
    then show ?thesis by (simp add: reached_def)
  next
    case (Inr u)
    then show ?thesis using Cons.IH by (simp add: reached_def)
  qed
qed

lemma notify_loop_result:
  "fst (notify_loop h obs orderId st calls) =
     (case find (\<lambda>ob. isl (h ob orderId st)) obs of
        None \<Rightarrow> Inr ()
      | Some ob \<Rightarrow> h ob orderId st)"
proof (induction obs arbitrary: calls)
  case Nil
  show ?case by simp
next
  case (Cons ob rest)
  show ?case
  proof (cases "h ob orderId st")
    case (Inl e)
    then show ?thesis by simp
  next
    case (Inr u)
    then show ?thesis using Cons.IH by simp
  qed
qed

lemma reached_all:
  "\<forall>ob\<in>set obs. h ob orderId st = Inr () \<Longrightarrow> reached h orderId st obs = obs"
  unfolding reached_def by (induction obs) simp_all

text \<open>
  Claim C5, as the code has it. \<open>OrderSubject.notify(orderId, status)\<close> calls
  \<open>onStatusChanged(orderId, status)\<close> on the attached observers in attachment order, up to
  and including the first observer whose call throws; that exception is the outcome of
  \<open>notify\<close> and the observers after it are not called. When no attached observer throws,
  every attached observer is called once, in attachment order, and \<open>notify\<close> returns.
\<close>

theorem notify_delivers_until_throw:
  "snd (OrderSubject_notify h subject orderId st) =
     map (\<lambda>ob. (ob, orderId, st)) (reached h orderId st (observers subject)) \<and>
   fst (OrderSubject_notify h subject orderId st) =
     (case find (\<lambda>ob. isl (h ob orderId st)) (observers subject) of
        None \<Rightarrow> Inr ()
      | Some ob \<Rightarrow> h ob orderId st) \<and>
   ((\<forall>ob\<in>set (observers subject). h ob orderId st = Inr ()) \<longrightarrow>
      OrderSubject_notify h subject orderId st =
        (Inr (), map (\<lambda>ob. (ob, orderId, st)) (observers subject)))"
proof (intro conjI impI)
  show c: "snd (OrderSubject_notify h subject orderId st) =
     map (\<lambda>ob. (ob, orderId, st)) (reached h orderId st (observers subject))"
    by (simp add: OrderSubject_notify_def notify_loop_calls)
  show r: "fst (OrderSubject_notify h subject orderId st) =
     (case find (\<lambda>ob. isl (h ob orderId st)) (observers subject) of
        None \<Rightarrow> Inr ()
      | Some ob \<Rightarrow> h ob orderId st)"
    by (simp add: OrderSubject_notify_def notify_loop_result)
  assume a: "\<forall>ob\<in>set (observers subject). h ob orderId st = Inr ()"
  then have "find (\<lambda>ob. isl (h ob orderId st)) (observers subject) = None"
    by (simp add: find_None_iff)
  with r have "fst (OrderSubject_notify h subject orderId st) = Inr ()"
    by simp
  moreover from c a have "snd (OrderSubject_notify h subject orderId st) =
      map (\<lambda>ob. (ob, orderId, st)) (observers subject)"
    by (simp add: reached_all)
  ultimately show "OrderSubject_notify h subject orderId st =
        (Inr (), map (\<lambda>ob. (ob, orderId, st)) (observers subject))"
    by (simp add: prod_eq_iff)
qed

theorem notify_delivers_until_throw_witness:
  "observers (OrderSubject_attach (OrderSubject_attach OrderSubject_new 1) 2) = [1, 2] \<and>
   all_return 1 ''o1'' ''READY'' = Inr () \<and>
   all_return 2 ''o1'' ''READY'' = Inr () \<and>
   OrderSubject_notify all_return (OrderSubject_attach (OrderSubject_attach OrderSubject_new 1) 2)
     ''o1'' ''READY'' = (Inr (), [(1, ''o1'', ''READY''), (2, ''o1'', ''READY'')])"
proof -
  let ?s = "OrderSubject_attach (OrderSubject_attach OrderSubject_new 1) 2"
  have obs: "observers ?s = [1, 2]"
    by (simp add: OrderSubject_attach_def OrderSubject_new_def)
  have a: "\<forall>ob\<in>set (observers ?s). all_return ob ''o1'' ''READY'' = Inr ()"
    by (simp add: all_return_def)
  from notify_delivers_until_throw [of all_return ?s "''o1''" "''READY''"] a
  have "OrderSubject_notify all_return ?s ''o1'' ''READY'' =
      (Inr (), map (\<lambda>ob. (ob, ''o1'', ''READY'')) (observers ?s))"
    by blast
  with obs show ?thesis by (simp add: all_return_def)
qed

text \<open>
  Claim C5 as the specification states it fails: with observers 1 and 2 attached in this
  order and observer 1 throwing, \<open>notify\<close> calls observer 1 only and ends with the
  exception; observer 2 is attached and is never called.
\<close>

theorem notify_not_isolated_counterexample:
  "observers (OrderSubject_attach (OrderSubject_attach OrderSubject_new 1) 2) = [1, 2] \<and>
   first_throws 2 ''o1'' ''READY'' = Inr () \<and>
   OrderSubject_notify first_throws (OrderSubject_attach (OrderSubject_attach OrderSubject_new 1) 2)
     ''o1'' ''READY'' = (Inl (Error ''observer failed''), [(1, ''o1'', ''READY'')])"
  by (simp add: OrderSubject_notify_def OrderSubject_attach_def OrderSubject_new_def
      first_throws_def)

lemma set_reached: "set (reached h orderId st obs) \<subseteq> set obs"
proof -
  have "set (take 1 (dropWhile (\<lambda>ob. \<not> isl (h ob orderId st)) obs)) \<subseteq> set obs"
    using set_take_subset set_dropWhileD by fastforce
  moreover have "set (takeWhile (\<lambda>ob. \<not> isl (h ob orderId st)) obs) \<subseteq> set obs"
    using set_takeWhileD by fastforce
  ultimately show ?thesis by (simp add: reached_def)
qed

lemma reached_Cons:
  "reached h orderId st (ob # rest) =
     (if isl (h ob orderId st) then [ob] else ob # reached h orderId st rest)"
  by (simp add: reached_def)

lemma reached_prefix:
  "reached h orderId st obs = take (length (reached h orderId st obs)) obs"
proof (induction obs)
  case Nil
  show ?case by (simp add: reached_def)
next
  case (Cons ob rest)
  then show ?case by (simp add: reached_Cons)
qed

lemma reached_at_most_once:
  "distinct obs \<Longrightarrow> length (filter (\<lambda>ob. ob = x) (reached h orderId st obs)) \<le> 1"
proof -
  assume "distinct obs"
  then have "distinct (take (length (reached h orderId st obs)) obs)"
    by (rule distinct_take)
  then have "distinct (map (\<lambda>ob. ob) (reached h orderId st obs))"
    using reached_prefix [of h orderId st obs] by simp
  then show ?thesis
    by (rule distinct_map_at_most_one)
qed

lemma reached_once:
  "distinct obs \<Longrightarrow> x \<in> set obs \<Longrightarrow>
     \<forall>ob\<in>set (takeWhile (\<lambda>ob. ob \<noteq> x) obs). h ob orderId st = Inr () \<Longrightarrow>
     length (filter (\<lambda>ob. ob = x) (reached h orderId st obs)) = 1"
proof (induction obs)
  case Nil
  then show ?case by simp
next
  case (Cons ob rest)
  show ?case
  proof (cases "ob = x")
    case True
    with Cons.prems have "x \<notin> set rest" by simp
    with set_reached [of h orderId st rest] have "x \<notin> set (reached h orderId st rest)"
      by blast
    then have "filter (\<lambda>ob. ob = x) (reached h orderId st rest) = []"
      unfolding filter_empty_conv by blast
    with True show ?thesis by (simp add: reached_Cons)
  next
    case False
    with Cons.prems have "h ob orderId st = Inr ()" and "x \<in> set rest" and "distinct rest"
      and "\<forall>ob\<in>set (takeWhile (\<lambda>ob. ob \<noteq> x) rest). h ob orderId st = Inr ()"
      by simp_all
    with False Cons.IH show ?thesis by (simp add: reached_Cons)
  qed
qed

lemma reached_never:
  "\<exists>ob\<in>set (takeWhile (\<lambda>ob. ob \<noteq> x) obs). isl (h ob orderId st) \<Longrightarrow>
     filter (\<lambda>ob. ob = x) (reached h orderId st obs) = []"
proof (induction obs)
  case Nil
  then show ?case by simp
next
  case (Cons ob rest)
  show ?case
  proof (cases "ob = x")
    case True
    with Cons.prems show ?thesis by simp
  next
    case False
    show ?thesis
    proof (cases "isl (h ob orderId st)")
      case True
      with False show ?thesis by (simp add: reached_Cons)
    next
      case returns: False
      with False Cons.prems
      have "\<exists>ob\<in>set (takeWhile (\<lambda>ob. ob \<noteq> x) rest). isl (h ob orderId st)"
        by simp
      then have "filter (\<lambda>ob. ob = x) (reached h orderId st rest) = []"
        by (rule Cons.IH)
      with False returns show ?thesis by (simp add: reached_Cons)
    qed
  qed
qed

lemma calls_of_observer:
  "filter (\<lambda>c. fst c = x) (snd (OrderSubject_notify h subject orderId st)) =
     map (\<lambda>ob. (ob, orderId, st))
       (filter (\<lambda>ob. ob = x) (reached h orderId st (observers subject)))"
  by (simp add: OrderSubject_notify_def notify_loop_calls filter_map comp_def)

lemma distinct_count_one: "distinct xs \<Longrightarrow> x \<in> set xs \<Longrightarrow> count_list xs x = 1"
  by (induction xs) auto

lemma attach_twice:
  "OrderSubject_attach (OrderSubject_attach subject x) x = OrderSubject_attach subject x"
  by (simp add: OrderSubject_attach_def)

lemma attach_distinct:
  "distinct (observers subject) \<Longrightarrow> distinct (observers (OrderSubject_attach subject x))"
  by (simp add: OrderSubject_attach_def)

lemma detach_distinct:
  "distinct (observers subject) \<Longrightarrow> distinct (observers (OrderSubject_detach subject x))"
  by (simp add: OrderSubject_detach_def)

lemma attach_member: "x \<in> set (observers (OrderSubject_attach subject x))"
  by (simp add: OrderSubject_attach_def)

lemma attach_others:
  "ob \<in> set (observers (OrderSubject_attach subject x)) \<Longrightarrow> ob \<noteq> x \<Longrightarrow> ob \<in> set (observers subject)"
  by (simp add: OrderSubject_attach_def split: if_splits)

lemma detach_unregistered:
  "x \<notin> set (observers subject) \<Longrightarrow> OrderSubject_detach subject x = subject"
proof -
  assume "x \<notin> set (observers subject)"
  then have "filter (\<lambda>ob. ob \<noteq> x) (observers subject) = observers subject"
    unfolding filter_id_conv by blast
  then show ?thesis by (simp add: OrderSubject_detach_def)
qed

text \<open>
  Claim C7, as the code has it. \<open>OrderSubject.attach\<close> has set-like membership: attaching
  an observer that is attached already changes nothing, so attaching the same observer
  twice registers it once (the observer list of a subject built by \<open>attach\<close> and \<open>detach\<close>
  from a new one never repeats an observer). A following \<open>notify\<close> never calls it twice:
  it calls it exactly once when every observer attached before it returns (on a new
  subject there is none, and the only call made is the one call of that observer), and
  not at all when an observer attached before it throws. \<open>detach\<close> of an observer that
  is not registered returns the subject unchanged.
\<close>

theorem attach_set_like:
  "OrderSubject_attach (OrderSubject_attach subject x) x = OrderSubject_attach subject x \<and>
   distinct (observers OrderSubject_new) \<and>
   (distinct (observers subject) \<longrightarrow>
      distinct (observers (OrderSubject_attach subject x)) \<and>
      distinct (observers (OrderSubject_detach subject x)) \<and>
      count_list (observers (OrderSubject_attach (OrderSubject_attach subject x) x)) x = 1) \<and>
   OrderSubject_notify h (OrderSubject_attach (OrderSubject_attach OrderSubject_new x) x) orderId st =
     (h x orderId st, [(x, orderId, st)]) \<and>
   (distinct (observers subject) \<longrightarrow>
      length (filter (\<lambda>c. fst c = x)
        (snd (OrderSubject_notify h (OrderSubject_attach (OrderSubject_attach subject x) x)
           orderId st))) \<le> 1) \<and>
   (distinct (observers subject) \<and>
    (\<forall>ob\<in>set (takeWhile (\<lambda>ob. ob \<noteq> x) (observers (OrderSubject_attach subject x))).
       h ob orderId st = Inr ()) \<longrightarrow>
      length (filter (\<lambda>c. fst c = x)
        (snd (OrderSubject_notify h (OrderSubject_attach (OrderSubject_attach subject x) x)
           orderId st))) = 1) \<and>
   ((\<exists>ob\<in>set (takeWhile (\<lambda>ob. ob \<noteq> x) (observers (OrderSubject_attach subject x))).
       isl (h ob orderId st)) \<longrightarrow>
      length (filter (\<lambda>c. fst c = x)
        (snd (OrderSubject_notify h (OrderSubject_attach (OrderSubject_attach subject x) x)
           orderId st))) = 0) \<and>
   (x \<notin> set (observers subject) \<longrightarrow> OrderSubject_detach subject x = subject)"
proof (intro conjI impI)
  show "OrderSubject_attach (OrderSubject_attach subject x) x = OrderSubject_attach subject x"
    by (rule attach_twice)
  show "distinct (observers OrderSubject_new)"
    by (simp add: OrderSubject_new_def)
  show "OrderSubject_notify h (OrderSubject_attach (OrderSubject_attach OrderSubject_new x) x)
      orderId st = (h x orderId st, [(x, orderId, st)])"
    by (cases "h x orderId st")
      (simp_all add: OrderSubject_notify_def OrderSubject_attach_def OrderSubject_new_def)
next
  assume d: "distinct (observers subject)"
  show d': "distinct (observers (OrderSubject_attach subject x))"
    using d by (rule attach_distinct)
  show "distinct (observers (OrderSubject_detach subject x))"
    using d by (rule detach_distinct)
  have "count_list (observers (OrderSubject_attach subject x)) x = 1"
    using d' attach_member [of x subject] by (rule distinct_count_one)
  then show "count_list (observers (OrderSubject_attach (OrderSubject_attach subject x) x)) x = 1"
    by (simp only: attach_twice)
next
  assume "distinct (observers subject)"
  then have d: "distinct (observers (OrderSubject_attach subject x))"
    by (rule attach_distinct)
  from reached_at_most_once [OF d, of x h orderId st]
  show "length (filter (\<lambda>c. fst c = x)
        (snd (OrderSubject_notify h (OrderSubject_attach (OrderSubject_attach subject x) x)
           orderId st))) \<le> 1"
    by (simp add: attach_twice calls_of_observer)
next
  assume a: "distinct (observers subject) \<and>
    (\<forall>ob\<in>set (takeWhile (\<lambda>ob. ob \<noteq> x) (observers (OrderSubject_attach subject x))).
       h ob orderId st = Inr ())"
  let ?obs = "observers (OrderSubject_attach subject x)"
  from a have d: "distinct ?obs"
    by (simp add: attach_distinct)
  from a have r: "\<forall>ob\<in>set (takeWhile (\<lambda>ob. ob \<noteq> x) ?obs). h ob orderId st = Inr ()"
    by blast
  have "length (filter (\<lambda>ob. ob = x) (reached h orderId st ?obs)) = 1"
    using d attach_member r by (rule reached_once)
  then show "length (filter (\<lambda>c. fst c = x)
        (snd (OrderSubject_notify h (OrderSubject_attach (OrderSubject_attach subject x) x)
           orderId st))) = 1"
    by (simp add: attach_twice calls_of_observer)
next
  assume "\<exists>ob\<in>set (takeWhile (\<lambda>ob. ob \<noteq> x) (observers (OrderSubject_attach subject x))).
       isl (h ob orderId st)"
  then have "filter (\<lambda>ob. ob = x)
      (reached h orderId st (observers (OrderSubject_attach subject x))) = []"
    by (rule reached_never)
  then show "length (filter (\<lambda>c. fst c = x)
        (snd (OrderSubject_notify h (OrderSubject_attach (OrderSubject_attach subject x) x)
           orderId st))) = 0"
    by (simp add: attach_twice calls_of_observer)
next
  assume "x \<notin> set (observers subject)"
  then show "OrderSubject_detach subject x = subject"
    by (rule detach_unregistered)
qed

theorem attach_set_like_witness:
  "observers (OrderSubject_attach (OrderSubject_attach
     (OrderSubject_attach (OrderSubject_attach (OrderSubject_attach OrderSubject_new 3) 2) 1) 2) 2) =
     [3, 2, 1] \<and>
   first_throws 3 ''o1'' ''READY'' = Inr () \<and>
   length (filter (\<lambda>c. fst c = 2) (snd (OrderSubject_notify first_throws
     (OrderSubject_attach (OrderSubject_attach
        (OrderSubject_attach (OrderSubject_attach (OrderSubject_attach OrderSubject_new 3) 2) 1) 2) 2)
     ''o1'' ''READY''))) = 1 \<and>
   count_list (observers (OrderSubject_attach (OrderSubject_attach
     (OrderSubject_attach (OrderSubject_attach (OrderSubject_attach OrderSubject_new 3) 2) 1) 2) 2))
     2 = 1 \<and>
   observers (OrderSubject_attach (OrderSubject_attach (OrderSubject_attach OrderSubject_new 1) 2) 2) =
     [1, 2] \<and>
   isl (first_throws 1 ''o1'' ''READY'') \<and>
   length (filter (\<lambda>c. fst c = 2) (snd (OrderSubject_notify first_throws
     (OrderSubject_attach (OrderSubject_attach (OrderSubject_attach OrderSubject_new 1) 2) 2)
     ''o1'' ''READY''))) = 0 \<and>
   OrderSubject_detach (OrderSubject_attach OrderSubject_new 1) 2 =
     OrderSubject_attach OrderSubject_new 1"
proof -
  let ?s = "OrderSubject_attach (OrderSubject_attach (OrderSubject_attach OrderSubject_new 3) 2) 1"
  let ?t = "OrderSubject_attach OrderSubject_new 1"
  have s: "observers ?s = [3, 2, 1]"
    by (simp add: OrderSubject_attach_def OrderSubject_new_def)
  have s1: "observers (OrderSubject_attach ?s 2) = [3, 2, 1]"
    by (simp add: OrderSubject_attach_def OrderSubject_new_def)
  have s2: "observers (OrderSubject_attach (OrderSubject_attach ?s 2) 2) = [3, 2, 1]"
    by (simp add: OrderSubject_attach_def OrderSubject_new_def)
  have t: "observers ?t = [1]"
    by (simp add: OrderSubject_attach_def OrderSubject_new_def)
  have t1: "observers (OrderSubject_attach ?t 2) = [1, 2]"
    by (simp add: OrderSubject_attach_def OrderSubject_new_def)
  have t2: "observers (OrderSubject_attach (OrderSubject_attach ?t 2) 2) = [1, 2]"
    by (simp add: OrderSubject_attach_def OrderSubject_new_def)
  have ds: "distinct (observers ?s)"
    unfolding s by simp
  have r3: "first_throws 3 ''o1'' ''READY'' = Inr ()"
    by (simp add: first_throws_def)
  have before: "\<forall>ob\<in>set (takeWhile (\<lambda>ob. ob \<noteq> 2) (observers (OrderSubject_attach ?s 2))).
      first_throws ob ''o1'' ''READY'' = Inr ()"
    unfolding s1 by (simp add: first_throws_def)
  have i1: "isl (first_throws 1 ''o1'' ''READY'')"
    by (simp add: first_throws_def)
  have thrower: "\<exists>ob\<in>set (takeWhile (\<lambda>ob. ob \<noteq> 2) (observers (OrderSubject_attach ?t 2))).
      isl (first_throws ob ''o1'' ''READY'')"
    unfolding t1 by (simp add: first_throws_def)
  have n: "2 \<notin> set (observers ?t)"
    unfolding t by simp
  note on_s = attach_set_like [of ?s 2 first_throws "''o1''" "''READY''"]
  note on_t = attach_set_like [of ?t 2 first_throws "''o1''" "''READY''"]
  from on_s ds before have once: "length (filter (\<lambda>c. fst c = 2)
      (snd (OrderSubject_notify first_throws (OrderSubject_attach (OrderSubject_attach ?s 2) 2)
         ''o1'' ''READY''))) = 1"
    by blast
  from on_s ds have cnt: "count_list
      (observers (OrderSubject_attach (OrderSubject_attach ?s 2) 2)) 2 = 1"
    by blast
  from on_t thrower have never: "length (filter (\<lambda>c. fst c = 2)
      (snd (OrderSubject_notify first_throws (OrderSubject_attach (OrderSubject_attach ?t 2) 2)
         ''o1'' ''READY''))) = 0"
    by blast
  from on_t n have det: "OrderSubject_detach ?t 2 = ?t"
    by blast
  from s2 r3 once cnt t2 i1 never det show ?thesis
    by (intro conjI)
qed

text \<open>
  Claim C7 as the specification states it fails: with observer 1 attached and throwing,
  and observer 2 attached twice after it, observer 2 is registered once and \<open>notify\<close>
  makes no call of it.
\<close>

theorem attach_twice_not_called_counterexample:
  "observers (OrderSubject_attach (OrderSubject_attach (OrderSubject_attach OrderSubject_new 1) 2) 2) =
     [1, 2] \<and>
   count_list (map fst (snd (OrderSubject_notify first_throws
     (OrderSubject_attach (OrderSubject_attach (OrderSubject_attach OrderSubject_new 1) 2) 2)
     ''o1'' ''READY''))) 2 = 0"
  by (simp add: OrderSubject_notify_def OrderSubject_attach_def OrderSubject_new_def
      first_throws_def)

section \<open>Abstract base operations\<close>

text \<open>
  Claim C6, evaluated on the code. The base operations of the strategy and of the two
  repositories throw for every argument. \<open>OrderObserver.onStatusChanged\<close> on the base
  class does not: for every argument, \<open>("o1", "READY")\<close> among them, the call returns and
  nothing signals the missing implementation.
\<close>

theorem OrderObserver_base_returns:
  "OrderObserver_onStatusChanged ''o1'' ''READY'' = Inr () \<and>
   OrderObserver_onStatusChanged orderId st = Inr () \<and>
   PricingStrategy_computeTotal items menu = Inl (Error ''computeTotal must be implemented'') \<and>
   MenuRepository_findAll = Inl (Error ''Not implemented'') \<and>
   MenuRepository_findById i = Inl (Error ''Not implemented'') \<and>
   MenuRepository_save item = Inl (Error ''Not implemented'') \<and>
   MenuRepository_toggleAvailability i avail = Inl (Error ''Not implemented'') \<and>
   OrderRepository_save order = Inl (Error ''Not implemented'') \<and>
   OrderRepository_findById i = Inl (Error ''Not implemented'') \<and>
   OrderRepository_findByStatus st = Inl (Error ''Not implemented'') \<and>
   OrderRepository_updateStatus i st = Inl (Error ''Not implemented'')"
  by (simp add: OrderObserver_onStatusChanged_def PricingStrategy_computeTotal_def
      MenuRepository_findAll_def MenuRepository_findById_def MenuRepository_save_def
      MenuRepository_toggleAvailability_def OrderRepository_save_def
      OrderRepository_findById_def OrderRepository_findByStatus_def
      OrderRepository_updateStatus_def)

section \<open>Menu repository\<close>

lemma findIndex_from_absent: "\<forall>x\<in>set xs. \<not> P x \<Longrightarrow> findIndex_from P xs i = - 1"
  by (induction xs arbitrary: i) simp_all

lemma findIndex_from_present:
  "\<exists>x\<in>set xs. P x \<Longrightarrow>
     findIndex_from P xs i = i + int (length (takeWhile (\<lambda>x. \<not> P x) xs))"
proof (induction xs arbitrary: i)
  case Nil
  then show ?case by simp
next
  case (Cons a xs)
  show ?case
  proof (cases "P a")
    case True
    then show ?thesis by simp
  next
    case False
    with Cons.prems have "\<exists>x\<in>set xs. P x" by simp
    then have "findIndex_from P xs (i + 1) = i + 1 + int (length (takeWhile (\<lambda>x. \<not> P x) xs))"
      by (rule Cons.IH)
    with False show ?thesis by simp
  qed
qed

lemma findIndex_absent: "\<forall>x\<in>set xs. \<not> P x \<Longrightarrow> findIndex P xs = - 1"
  by (simp add: findIndex_def findIndex_from_absent)

lemma findIndex_present:
  "\<exists>x\<in>set xs. P x \<Longrightarrow> findIndex P xs = int (length (takeWhile (\<lambda>x. \<not> P x) xs))"
  by (simp add: findIndex_def findIndex_from_present)

lemma first_match_in_range:
  "\<exists>x\<in>set xs. P x \<Longrightarrow>
     length (takeWhile (\<lambda>x. \<not> P x) xs) < length xs \<and> P (xs ! length (takeWhile (\<lambda>x. \<not> P x) xs))"
  by (induction xs) auto

lemma find_replace_first_same:
  "\<exists>x\<in>set xs. P x \<Longrightarrow> P y \<Longrightarrow>
     find P (xs[length (takeWhile (\<lambda>x. \<not> P x) xs) := y]) = Some y"
  by (induction xs) auto

lemma find_replace_first_other:
  "\<exists>x\<in>set xs. P x \<Longrightarrow> \<forall>x. P x \<longrightarrow> \<not> Q x \<Longrightarrow> \<not> Q y \<Longrightarrow>
     find Q (xs[length (takeWhile (\<lambda>x. \<not> P x) xs) := y]) = find Q xs"
  by (induction xs) auto

lemma save_absent:
  "mi_id item \<notin> set (map mi_id (menu_items repo)) \<Longrightarrow>
     menu_items (SqliteMenuRepository_save repo item) = menu_items repo @ [item]"
proof -
  assume "mi_id item \<notin> set (map mi_id (menu_items repo))"
  then have "\<forall>m\<in>set (menu_items repo). \<not> mi_id m = mi_id item"
    unfolding set_map by (metis imageI)
  then have "findIndex (\<lambda>m. mi_id m = mi_id item) (menu_items repo) = - 1"
    by (rule findIndex_absent)
  then show ?thesis
    by (simp add: SqliteMenuRepository_save_def)
qed

lemma save_present:
  "mi_id item \<in> set (map mi_id (menu_items repo)) \<Longrightarrow>
     menu_items (SqliteMenuRepository_save repo item) =
       (menu_items repo)
         [length (takeWhile (\<lambda>m. mi_id m \<noteq> mi_id item) (menu_items repo)) := item]"
proof -
  assume "mi_id item \<in> set (map mi_id (menu_items repo))"
  then have "\<exists>m\<in>set (menu_items repo). mi_id m = mi_id item"
    by auto
  then have "findIndex (\<lambda>m. mi_id m = mi_id item) (menu_items repo) =
      int (length (takeWhile (\<lambda>m. mi_id m \<noteq> mi_id item) (menu_items repo)))"
    by (rule findIndex_present)
  then show ?thesis
    by (simp add: SqliteMenuRepository_save_def)
qed

lemma save_findById_same:
  "SqliteMenuRepository_findById (SqliteMenuRepository_save repo item) (mi_id item) = Some item"
proof (cases "mi_id item \<in> set (map mi_id (menu_items repo))")
  case True
  then have "\<exists>m\<in>set (menu_items repo). mi_id m = mi_id item"
    by auto
  then have "find (\<lambda>m. mi_id m = mi_id item)
      ((menu_items repo)
         [length (takeWhile (\<lambda>m. \<not> mi_id m = mi_id item) (menu_items repo)) := item]) = Some item"
    by (rule find_replace_first_same) simp
  with True show ?thesis
    by (simp add: SqliteMenuRepository_findById_def save_present)
next
  case False
  then have "\<forall>m\<in>set (menu_items repo). \<not> mi_id m = mi_id item"
    unfolding set_map by (metis imageI)
  then have "find (\<lambda>m. mi_id m = mi_id item) (menu_items repo) = None"
    by (simp add: find_None_iff)
  with False show ?thesis
    by (simp add: SqliteMenuRepository_findById_def save_absent find_snoc)
qed

lemma save_findById_other:
  "i \<noteq> mi_id item \<Longrightarrow>
     SqliteMenuRepository_findById (SqliteMenuRepository_save repo item) i =
       SqliteMenuRepository_findById repo i"
proof (cases "mi_id item \<in> set (map mi_id (menu_items repo))")
  case True
  assume i: "i \<noteq> mi_id item"
  from True have "\<exists>m\<in>set (menu_items repo). mi_id m = mi_id item"
    by auto
  then have "find (\<lambda>m. mi_id m = i)
      ((menu_items repo)
         [length (takeWhile (\<lambda>m. \<not> mi_id m = mi_id item) (menu_items repo)) := item]) =
      find (\<lambda>m. mi_id m = i) (menu_items repo)"
    using i by (intro find_replace_first_other) auto
  with True show ?thesis
    by (simp add: SqliteMenuRepository_findById_def save_present)
next
  case False
  assume "i \<noteq> mi_id item"
  with False show ?thesis
    by (simp add: SqliteMenuRepository_findById_def save_absent find_snoc split: option.split)
qed

text \<open>
  Claim C8. For every state of the store, \<open>save\<close> is an upsert by id. When no stored
  item has the id of the saved item, \<open>findAll().length\<close> grows by exactly 1 and the item
  is appended. When a stored item has the id, the length is unchanged and the item takes
  the place of the first stored item with that id, every other position staying as it
  was. In both cases \<open>findById\<close> of the saved id then returns the saved item, and
  \<open>findById\<close> of any other id returns what it returned before.
\<close>

theorem save_upsert:
  "length (SqliteMenuRepository_findAll (SqliteMenuRepository_save repo item)) =
     (if mi_id item \<in> set (map mi_id (SqliteMenuRepository_findAll repo))
      then length (SqliteMenuRepository_findAll repo)
      else length (SqliteMenuRepository_findAll repo) + 1) \<and>
   (mi_id item \<notin> set (map mi_id (SqliteMenuRepository_findAll repo)) \<longrightarrow>
      SqliteMenuRepository_findAll (SqliteMenuRepository_save repo item) =
        SqliteMenuRepository_findAll repo @ [item]) \<and>
   (mi_id item \<in> set (map mi_id (SqliteMenuRepository_findAll repo)) \<longrightarrow>
      length (takeWhile (\<lambda>m. mi_id m \<noteq> mi_id item) (SqliteMenuRepository_findAll repo)) <
        length (SqliteMenuRepository_findAll repo) \<and>
      mi_id (SqliteMenuRepository_findAll repo !
        length (takeWhile (\<lambda>m. mi_id m \<noteq> mi_id item) (SqliteMenuRepository_findAll repo))) =
        mi_id item \<and>
      SqliteMenuRepository_findAll (SqliteMenuRepository_save repo item) =
        (SqliteMenuRepository_findAll repo)
          [length (takeWhile (\<lambda>m. mi_id m \<noteq> mi_id item) (SqliteMenuRepository_findAll repo))
             := item]) \<and>
   SqliteMenuRepository_findById (SqliteMenuRepository_save repo item) (mi_id item) = Some item \<and>
   (i \<noteq> mi_id item \<longrightarrow>
      SqliteMenuRepository_findById (SqliteMenuRepository_save repo item) i =
        SqliteMenuRepository_findById repo i)"
proof (intro conjI impI)
  show "length (SqliteMenuRepository_findAll (SqliteMenuRepository_save repo item)) =
     (if mi_id item \<in> set (map mi_id (SqliteMenuRepository_findAll repo))
      then length (SqliteMenuRepository_findAll repo)
      else length (SqliteMenuRepository_findAll repo) + 1)"
    by (simp add: SqliteMenuRepository_findAll_def save_present save_absent)
  show "SqliteMenuRepository_findById (SqliteMenuRepository_save repo item) (mi_id item) =
      Some item"
    by (rule save_findById_same)
next
  assume "mi_id item \<notin> set (map mi_id (SqliteMenuRepository_findAll repo))"
  then show "SqliteMenuRepository_findAll (SqliteMenuRepository_save repo item) =
        SqliteMenuRepository_findAll repo @ [item]"
    by (simp add: SqliteMenuRepository_findAll_def save_absent)
next
  assume p: "mi_id item \<in> set (map mi_id (SqliteMenuRepository_findAll repo))"
  then have "\<exists>m\<in>set (menu_items repo). mi_id m = mi_id item"
    by (auto simp: SqliteMenuRepository_findAll_def)
  from first_match_in_range [OF this]
  show "length (takeWhile (\<lambda>m. mi_id m \<noteq> mi_id item) (SqliteMenuRepository_findAll repo)) <
        length (SqliteMenuRepository_findAll repo)"
    and "mi_id (SqliteMenuRepository_findAll repo !
        length (takeWhile (\<lambda>m. mi_id m \<noteq> mi_id item) (SqliteMenuRepository_findAll repo))) =
        mi_id item"
    by (simp_all add: SqliteMenuRepository_findAll_def)
  from p show "SqliteMenuRepository_findAll (SqliteMenuRepository_save repo item) =
        (SqliteMenuRepository_findAll repo)
          [length (takeWhile (\<lambda>m. mi_id m \<noteq> mi_id item) (SqliteMenuRepository_findAll repo))
             := item]"
    by (simp add: SqliteMenuRepository_findAll_def save_present)
next
  assume "i \<noteq> mi_id item"
  then show "SqliteMenuRepository_findById (SqliteMenuRepository_save repo item) i =
        SqliteMenuRepository_findById repo i"
    by (rule save_findById_other)
qed

theorem save_upsert_witness:
  "mi_id example_new_item \<notin>
     set (map mi_id (SqliteMenuRepository_findAll (SqliteMenuRepository_new scenario_menu))) \<and>
   SqliteMenuRepository_findAll
     (SqliteMenuRepository_save (SqliteMenuRepository_new scenario_menu) example_new_item) =
     scenario_menu @ [example_new_item] \<and>
   mi_id example_changed_item \<in>
     set (map mi_id (SqliteMenuRepository_findAll (SqliteMenuRepository_new scenario_menu))) \<and>
   SqliteMenuRepository_findAll
     (SqliteMenuRepository_save (SqliteMenuRepository_new scenario_menu) example_changed_item) =
     [hd scenario_menu, example_changed_item] \<and>
   SqliteMenuRepository_findById
     (SqliteMenuRepository_save (SqliteMenuRepository_new scenario_menu) example_changed_item)
     ''m1'' = Some (hd scenario_menu)"
proof -
  let ?repo = "SqliteMenuRepository_new scenario_menu"
  have all: "SqliteMenuRepository_findAll ?repo = scenario_menu"
    by (simp add: SqliteMenuRepository_findAll_def SqliteMenuRepository_new_def)
  have new: "mi_id example_new_item \<notin> set (map mi_id (SqliteMenuRepository_findAll ?repo))"
    unfolding all by (simp add: scenario_menu_def example_new_item_def)
  have old: "mi_id example_changed_item \<in> set (map mi_id (SqliteMenuRepository_findAll ?repo))"
    unfolding all by (simp add: scenario_menu_def example_changed_item_def)
  have other: "''m1'' \<noteq> mi_id example_changed_item"
    by (simp add: example_changed_item_def)
  have pos: "length (takeWhile (\<lambda>m. mi_id m \<noteq> mi_id example_changed_item) scenario_menu) = 1"
    by (simp add: scenario_menu_def example_changed_item_def)
  have before: "SqliteMenuRepository_findById ?repo ''m1'' = Some (hd scenario_menu)"
    by (simp add: SqliteMenuRepository_findById_def SqliteMenuRepository_new_def
        scenario_menu_def)
  from save_upsert [of ?repo example_new_item] new
  have a: "SqliteMenuRepository_findAll (SqliteMenuRepository_save ?repo example_new_item) =
      scenario_menu @ [example_new_item]"
    unfolding all by blast
  from save_upsert [of ?repo example_changed_item "''m1''"] old other
  have "SqliteMenuRepository_findAll (SqliteMenuRepository_save ?repo example_changed_item) =
      scenario_menu
        [length (takeWhile (\<lambda>m. mi_id m \<noteq> mi_id example_changed_item) scenario_menu)
           := example_changed_item]"
    and c: "SqliteMenuRepository_findById
      (SqliteMenuRepository_save ?repo example_changed_item) ''m1'' =
      SqliteMenuRepository_findById ?repo ''m1''"
    unfolding all by blast+
  then have b: "SqliteMenuRepository_findAll
      (SqliteMenuRepository_save ?repo example_changed_item) =
      [hd scenario_menu, example_changed_item]"
    unfolding pos by (simp add: scenario_menu_def)
  from new a old b c before show ?thesis
    by (intro conjI) simp_all
qed

end
